theory Spec2Isabelle
  imports Main "HOL-Library.Char_ord" "HOL-Library.List_Lexorder"
begin

section \<open>Python string primitives used by normalize\_labels.py\<close>

text \<open>
  A Python \<open>str\<close> is a sequence of code points. The model uses \<^typ>\<open>string\<close>, whose
  characters are the code points 0..255 (Latin-1); on this range the functions below
  follow CPython's \<open>str.isspace\<close>, \<open>str.lower\<close>, \<open>str.strip\<close>, \<open>str.split\<close>,
  \<open>str.splitlines\<close>, \<open>str.join\<close>, \<open>str.replace\<close>, \<open>int\<close> and \<open>str\<close>.
\<close>

definition isspace :: "char \<Rightarrow> bool" where
  "isspace c \<longleftrightarrow> c \<in> {CHR 0x09, CHR 0x0A, CHR 0x0B, CHR 0x0C, CHR 0x0D,
                      CHR 0x1C, CHR 0x1D, CHR 0x1E, CHR 0x1F, CHR 0x20, CHR 0x85, CHR 0xA0}"

definition is_upper :: "char \<Rightarrow> bool" where
  "is_upper c \<longleftrightarrow> (let n = (of_char c :: nat)
                  in (65 \<le> n \<and> n \<le> 90) \<or> (192 \<le> n \<and> n \<le> 222 \<and> n \<noteq> 215))"

definition lower_char :: "char \<Rightarrow> char" where
  "lower_char c = (if is_upper c then char_of ((of_char c :: nat) + 32) else c)"

definition lower :: "string \<Rightarrow> string" where
  "lower s = map lower_char s"

definition strip :: "string \<Rightarrow> string" where
  "strip s = rev (dropWhile isspace (rev (dropWhile isspace s)))"

function split_ws :: "string \<Rightarrow> string list" where
  "split_ws s =
     (let s' = dropWhile isspace s
      in if s' = [] then []
         else takeWhile (\<lambda>c. \<not> isspace c) s' # split_ws (dropWhile (\<lambda>c. \<not> isspace c) s'))"
  by pat_completeness auto
termination
proof (relation "measure length")
  fix s s' :: string
  assume s': "s' = dropWhile isspace s" and ne: "s' \<noteq> []"
  from ne obtain c cs where cs: "s' = c # cs" by (cases s') auto
  with s' have "\<not> isspace c" by (metis hd_dropWhile list.sel(1) ne)
  with cs have "length (dropWhile (\<lambda>c. \<not> isspace c) s') \<le> length cs"
    by (simp add: length_dropWhile_le)
  also have "length cs < length s'" using cs by simp
  also have "length s' \<le> length s" using s' by (simp add: length_dropWhile_le)
  finally show "(dropWhile (\<lambda>c. \<not> isspace c) s', s) \<in> measure length" by simp
qed simp

declare split_ws.simps [simp del]

fun join :: "string \<Rightarrow> string list \<Rightarrow> string" where
  "join sep [] = []"
| "join sep [x] = x"
| "join sep (x # y # ys) = x @ sep @ join sep (y # ys)"

definition replace_char :: "char \<Rightarrow> char \<Rightarrow> string \<Rightarrow> string" where
  "replace_char a b s = map (\<lambda>c. if c = a then b else c) s"

section \<open>normalize\_label\_name\<close>

definition safe_aliases :: "(string \<times> string list) list" where
  "safe_aliases =
     [(''damaged_roof'', [''damaged_roof'', ''damagedroof'', ''damaged__roof'']),
      (''wall_leaking'', [''wall_leaking'', ''wall-leaking'', ''wall__leaking'']),
      (''broken_window'', [''broken_window'', ''brokenwindow'']),
      (''building'', [''building'']),
      (''roof'', [''roof'']),
      (''window'', [''window'']),
      (''crack'', [''crack'']),
      (''damage'', [''damage''])]"

fun alias_lookup :: "(string \<times> string list) list \<Rightarrow> string \<Rightarrow> string" where
  "alias_lookup [] name = name"
| "alias_lookup ((canonical, variants) # rest) name =
     (if name \<in> set variants then canonical else alias_lookup rest name)"

definition normalize_label_name :: "string \<Rightarrow> string" where
  "normalize_label_name raw =
     (let name = lower (strip raw);
          name = replace_char (CHR ''_'') (CHR '' '') (replace_char (CHR ''-'') (CHR '' '') name);
          name = join '' '' (split_ws name);
          name = replace_char (CHR '' '') (CHR ''_'') name
      in alias_lookup safe_aliases name)"


section \<open>build\_names\_and\_remap\<close>

type_synonym remap_table = "int \<rightharpoonup> int"

text \<open>
  The loop of \<open>build_names_and_remap\<close> over \<open>enumerate(old_names)\<close>, with the three
  dictionaries and lists it updates passed as arguments.
\<close>

fun build_loop ::
  "int \<Rightarrow> string list \<Rightarrow> (string \<rightharpoonup> int) \<Rightarrow> string list \<Rightarrow> remap_table
     \<Rightarrow> string list \<times> remap_table" where
  "build_loop old_idx [] seen new_names remap = (new_names, remap)"
| "build_loop old_idx (name # rest) seen new_names remap =
     (let norm = normalize_label_name name
      in case seen norm of
           None \<Rightarrow>
             (let k = int (length new_names)
              in build_loop (old_idx + 1) rest (seen(norm \<mapsto> k)) (new_names @ [norm])
                   (remap(old_idx \<mapsto> k)))
         | Some k \<Rightarrow> build_loop (old_idx + 1) rest seen new_names (remap(old_idx \<mapsto> k)))"

definition build_names_and_remap :: "string list \<Rightarrow> string list \<times> remap_table" where
  "build_names_and_remap old_names = build_loop 0 old_names Map.empty [] Map.empty"

section \<open>More string primitives: splitlines, int, str\<close>

definition is_linebreak :: "char \<Rightarrow> bool" where
  "is_linebreak c \<longleftrightarrow> c \<in> {CHR 0x0A, CHR 0x0B, CHR 0x0C, CHR 0x0D,
                          CHR 0x1C, CHR 0x1D, CHR 0x1E, CHR 0x85}"

text \<open>\<open>str.splitlines()\<close>: \<open>cur\<close> is the current line, reversed; CR LF is one break.\<close>

fun splitlines_aux :: "string \<Rightarrow> string \<Rightarrow> string list" where
  "splitlines_aux cur [] = (if cur = [] then [] else [rev cur])"
| "splitlines_aux cur (c # cs) =
     (if c = CHR 0x0D then
        (case cs of
           [] \<Rightarrow> [rev cur]
         | d # ds \<Rightarrow> if d = CHR 0x0A then rev cur # splitlines_aux [] ds
                    else rev cur # splitlines_aux [] (d # ds))
      else if is_linebreak c then rev cur # splitlines_aux [] cs
      else splitlines_aux (c # cur) cs)"

definition splitlines :: "string \<Rightarrow> string list" where
  "splitlines s = splitlines_aux [] s"

definition is_digit :: "char \<Rightarrow> bool" where
  "is_digit c \<longleftrightarrow> c \<in> set ''0123456789''"

definition digit_val :: "char \<Rightarrow> nat" where
  "digit_val c = of_char c - 48"

text \<open>
  The digits of an integer literal after its first digit: single underscores are
  allowed between digits. \<open>acc\<close> is the value read so far.
\<close>

fun parse_digits :: "nat \<Rightarrow> string \<Rightarrow> nat option" where
  "parse_digits acc [] = Some acc"
| "parse_digits acc [c] = (if is_digit c then Some (10 * acc + digit_val c) else None)"
| "parse_digits acc (c # d # cs) =
     (if is_digit c then parse_digits (10 * acc + digit_val c) (d # cs)
      else if c = CHR ''_'' \<and> is_digit d then parse_digits (10 * acc + digit_val d) cs
      else None)"

text \<open>
  \<open>int(s)\<close> in base 10: surrounding whitespace, an optional sign, digits. \<open>None\<close> is
  the \<open>ValueError\<close>. Around the literal \<open>int\<close> skips the ASCII whitespace and, of the
  other code points, those that are whitespace (0x85 and 0xA0 in this range); it does
  not skip 0x1C to 0x1F. The interpreter's limit on the number of digits is not
  modelled.
\<close>

definition is_int_space :: "char \<Rightarrow> bool" where
  "is_int_space c \<longleftrightarrow> c \<in> {CHR 0x09, CHR 0x0A, CHR 0x0B, CHR 0x0C, CHR 0x0D, CHR 0x20,
                           CHR 0x85, CHR 0xA0}"

definition py_int :: "string \<Rightarrow> int option" where
  "py_int s =
     (let t = rev (dropWhile is_int_space (rev (dropWhile is_int_space s)));
          neg = (t \<noteq> [] \<and> hd t = CHR ''-'');
          body = (if t \<noteq> [] \<and> (hd t = CHR ''-'' \<or> hd t = CHR ''+'') then tl t else t)
      in case body of
           [] \<Rightarrow> None
         | c # cs \<Rightarrow>
             if is_digit c
             then map_option (\<lambda>n. if neg then - int n else int n) (parse_digits (digit_val c) cs)
             else None)"

fun str_nat :: "nat \<Rightarrow> string" where
  "str_nat n = (if n < 10 then [char_of (48 + n)]
                else str_nat (n div 10) @ [char_of (48 + n mod 10)])"

declare str_nat.simps [simp del]

definition str_int :: "int \<Rightarrow> string" where
  "str_int i = (if i < 0 then CHR ''-'' # str_nat (nat (- i)) else str_nat (nat i))"

section \<open>process\_split\<close>

text \<open>
  The exceptions that reach the top of \<open>main\<close> in the model.
\<close>

datatype py_exception =
  AttributeError | TypeError | LoadError | FileNotFoundError | PermissionError | ShutilError

text \<open>
  Why \<open>read_text\<close> fails on a file, with \<open>str(e)\<close> of the exception: the bytes can be
  read but are not UTF-8 (the file can still be copied), or the file cannot be opened
  for reading at all (it cannot be copied either).
\<close>

datatype read_failure = Undecodable string | Unreadable string

fun failure_message :: "read_failure \<Rightarrow> string" where
  "failure_message (Undecodable msg) = msg"
| "failure_message (Unreadable msg) = msg"

text \<open>
  A label file as \<open>process_split\<close> sees it: \<open>str(lbl_path)\<close>, \<open>lbl_path.stem\<close>, what
  \<open>read_text\<close> does (\<open>Inr\<close> the decoded text, or \<open>Inl\<close> the failure), and whether the
  file can be opened for writing.
\<close>

record label_file =
  lbl_path :: string
  lbl_stem :: string
  lbl_content :: "read_failure + string"
  lbl_writable :: bool

text \<open>
  The body of the loop over the lines of one file (source lines 155 to 170): the line
  is skipped without an issue, rejected with an issue, or kept, with the flag that
  says whether its class id changed.
\<close>

datatype line_result = Skipped | Rejected string | Kept string bool

definition process_line :: "string \<Rightarrow> remap_table \<Rightarrow> string \<Rightarrow> line_result" where
  "process_line path remap ln =
     (case split_ws (strip ln) of
        [] \<Rightarrow> Skipped
      | p0 # ps \<Rightarrow>
          (case py_int p0 of
             None \<Rightarrow> Rejected (''Non-integer class id in '' @ path @ '': '' @ [CHR 0x27] @ p0 @ [CHR 0x27])
           | Some old_idx \<Rightarrow>
               (case remap old_idx of
                  None \<Rightarrow> Rejected (''Class id '' @ str_int old_idx @ '' not in remap for '' @ path)
                | Some new_idx \<Rightarrow>
                    if new_idx \<noteq> old_idx then Kept (join '' '' (str_int new_idx # ps)) True
                    else Kept (join '' '' (p0 # ps)) False)))"

fun process_lines ::
  "string \<Rightarrow> remap_table \<Rightarrow> string list \<Rightarrow> string list \<times> bool \<times> string list
     \<Rightarrow> string list \<times> bool \<times> string list" where
  "process_lines path remap [] st = st"
| "process_lines path remap (ln # lns) (new_lines, changed, issues) =
     (case process_line path remap ln of
        Skipped \<Rightarrow> process_lines path remap lns (new_lines, changed, issues)
      | Rejected msg \<Rightarrow> process_lines path remap lns (new_lines, changed, issues @ [msg])
      | Kept new_line ch \<Rightarrow>
          process_lines path remap lns (new_lines @ [new_line], changed \<or> ch, issues))"

text \<open>
  One iteration of the loop over the label files (source lines 141 to 172). The state
  is \<open>(num_processed, num_empty, issues)\<close>; the first component of the result is the
  text given to \<open>write_text\<close>, \<open>None\<close> when the file is not written.
\<close>

definition process_label_file ::
  "remap_table \<Rightarrow> bool \<Rightarrow> label_file \<Rightarrow> nat \<times> nat \<times> string list
     \<Rightarrow> string option \<times> (nat \<times> nat \<times> string list)" where
  "process_label_file remap do_apply f st =
     (case st of (num_processed, num_empty, issues) \<Rightarrow>
        (case lbl_content f of
           Inl e \<Rightarrow>
             (None, (num_processed + 1, num_empty,
                     issues @ [''Failed reading '' @ lbl_path f @ '': '' @ failure_message e]))
         | Inr text \<Rightarrow>
             (let content = strip text
              in if content = [] then (None, (num_processed + 1, num_empty + 1, issues))
                 else (case process_lines (lbl_path f) remap (splitlines content)
                              ([], False, issues) of
                         (new_lines, changed, issues') \<Rightarrow>
                           (if do_apply \<and> changed
                            then Some (join [CHR 0x0A] new_lines @ [CHR 0x0A]) else None,
                            (num_processed + 1, num_empty, issues'))))))"

text \<open>
  \<open>lbl_path.write_text(...)\<close> of source line 172. It is outside every \<open>try\<close>: on a
  file that cannot be opened for writing it raises, the file stays as it was, and the
  exception leaves \<open>process_split\<close> and \<open>main\<close>.
\<close>

definition write_text :: "label_file \<Rightarrow> string \<Rightarrow> py_exception + label_file" where
  "write_text f text =
     (if lbl_writable f then Inr (f\<lparr>lbl_content := Inr text\<rparr>) else Inl PermissionError)"

definition write_if_changed :: "label_file \<Rightarrow> string option \<Rightarrow> py_exception + label_file" where
  "write_if_changed f w = (case w of None \<Rightarrow> Inr f | Some text \<Rightarrow> write_text f text)"

text \<open>
  The loop over the label files. It returns the files as they are when the loop ends,
  and either the state \<open>(num_processed, num_empty, issues)\<close> or the exception that
  ended it early; the files after the one that raised are not touched.
\<close>

fun process_label_files ::
  "remap_table \<Rightarrow> bool \<Rightarrow> label_file list \<Rightarrow> nat \<times> nat \<times> string list
     \<Rightarrow> label_file list \<times> (py_exception + nat \<times> nat \<times> string list)" where
  "process_label_files remap do_apply [] st = ([], Inr st)"
| "process_label_files remap do_apply (f # fs) st =
     (case process_label_file remap do_apply f st of
        (w, st') \<Rightarrow>
          (case write_if_changed f w of
             Inl exc \<Rightarrow> (f # fs, Inl exc)
           | Inr f' \<Rightarrow>
               (case process_label_files remap do_apply fs st' of
                  (fs', r) \<Rightarrow> (f' # fs', r))))"

text \<open>
  A split directory: the two directory names as they appear in messages, the stems of
  the paths \<open>images_dir.rglob("*.jpg")\<close> yields (\<open>None\<close> when the directory does not
  exist), and the label files in the order \<open>sorted(labels_root.rglob("*.txt"))\<close>
  yields them (\<open>None\<close> when the directory does not exist).
\<close>

record split_dir =
  images_dir :: string
  labels_dir :: string
  images :: "string list option"
  labels :: "label_file list option"

definition iter_label_files :: "label_file list option \<Rightarrow> label_file list" where
  "iter_label_files labels_root = (case labels_root of None \<Rightarrow> [] | Some fs \<Rightarrow> fs)"

definition missing_label_issue :: "string \<Rightarrow> string \<Rightarrow> string" where
  "missing_label_issue idir stem = ''Missing label for image: '' @ idir @ ''/**/'' @ stem @ ''.jpg''"

definition missing_image_issue :: "string \<Rightarrow> string \<Rightarrow> string" where
  "missing_image_issue ldir stem = ''Missing image for label: '' @ ldir @ ''/**/'' @ stem @ ''.txt''"

text \<open>
  The orphan check (source lines 133 to 138) on the two sets of stems: the issues,
  \<open>num_missing_images\<close> and \<open>num_missing_labels\<close>.
\<close>

definition scan_split ::
  "string \<Rightarrow> string \<Rightarrow> string set \<Rightarrow> string set \<Rightarrow> string list \<times> nat \<times> nat" where
  "scan_split idir ldir image_stems label_stems =
     (let no_label = sorted_list_of_set (image_stems - label_stems);
          no_image = sorted_list_of_set (label_stems - image_stems)
      in (map (missing_label_issue idir) no_label @ map (missing_image_issue ldir) no_image,
          length no_image, length no_label))"

text \<open>
  \<open>process_split\<close> returns \<open>(num_processed, num_empty, num_missing_images,
  num_missing_labels, issues)\<close>, or raises what \<open>write_text\<close> raised; the model returns
  the split directory after the writes as well.
\<close>

definition process_split ::
  "split_dir \<Rightarrow> remap_table \<Rightarrow> bool
     \<Rightarrow> (py_exception + nat \<times> nat \<times> nat \<times> nat \<times> string list) \<times> split_dir" where
  "process_split sd remap do_apply =
     (let image_stems = (case images sd of Some stems \<Rightarrow> set stems | None \<Rightarrow> {});
          label_files = iter_label_files (labels sd);
          label_stems = set (map lbl_stem label_files)
      in case scan_split (images_dir sd) (labels_dir sd) image_stems label_stems of
           (issues, num_missing_images, num_missing_labels) \<Rightarrow>
             (case process_label_files remap do_apply label_files (0, 0, issues) of
                (label_files', r) \<Rightarrow>
                  ((case r of
                      Inl exc \<Rightarrow> Inl exc
                    | Inr (num_processed, num_empty, issues') \<Rightarrow>
                        Inr (num_processed, num_empty, num_missing_images, num_missing_labels,
                             issues')),
                   sd\<lparr>labels := map_option (\<lambda>_. label_files') (labels sd)\<rparr>)))"

section \<open>The manifest, the dataset directory and backup\_dataset\<close>

text \<open>
  What \<open>yaml.safe_load\<close> returns (floats apart). A mapping keeps its insertion order.
\<close>

datatype yaml =
    YNull
  | YBool bool
  | YInt int
  | YStr string
  | YList "yaml list"
  | YDict "(yaml \<times> yaml) list"

datatype yaml_file = Unparsable | Parsed yaml

text \<open>
  A backup directory: \<open>data.yaml.bak\<close> and the copies of the three \<open>labels\<close>
  directories, each \<open>None\<close> while it has not been copied.
\<close>

record backup =
  bak_data_yaml :: "yaml_file option"
  bak_train :: "label_file list option"
  bak_valid :: "label_file list option"
  bak_test :: "label_file list option"

text \<open>
  The dataset directory: \<open>data.yaml\<close> (\<open>None\<close> when it does not exist), the three
  splits, and the backup directories inside it, by name. Creating a directory, copying
  \<open>data.yaml\<close> and writing \<open>data.yaml\<close> are taken to succeed.
\<close>

record dataset =
  data_yaml_path :: string
  data_yaml :: "yaml_file option"
  train :: split_dir
  valid :: split_dir
  test :: split_dir
  backups :: "string \<rightharpoonup> backup"

text \<open>
  \<open>shutil.copytree\<close> of a \<open>labels\<close> directory (source line 192): it copies every file it
  can, and raises \<open>shutil.Error\<close> at the end when some file could not be read.
\<close>

definition can_copy :: "label_file \<Rightarrow> bool" where
  "can_copy f = (case lbl_content f of Inl (Unreadable msg) \<Rightarrow> False | _ \<Rightarrow> True)"

definition copytree :: "label_file list \<Rightarrow> py_exception option \<times> label_file list" where
  "copytree src = (if list_all can_copy src then None else Some ShutilError, filter can_copy src)"

text \<open>The body of the loop over the splits in \<open>backup_dataset\<close> (source lines 185 to 192).\<close>

definition copy_labels ::
  "label_file list option \<Rightarrow> py_exception option \<times> label_file list option" where
  "copy_labels src =
     (case src of
        None \<Rightarrow> (None, None)
      | Some fs \<Rightarrow> (case copytree fs of (e, dest) \<Rightarrow> (e, Some dest)))"

text \<open>
  \<open>backup_dataset\<close> returns the exception that ended it, if any, and the dataset
  directory with what has been copied until then. Nothing in \<open>main\<close> catches the
  exception.
\<close>

definition backup_dataset :: "dataset \<Rightarrow> string \<Rightarrow> py_exception option \<times> dataset" where
  "backup_dataset ds backup_dirname =
     (case backups ds backup_dirname of
        Some _ \<Rightarrow> (None, ds)
      | None \<Rightarrow>
          (case data_yaml ds of
             None \<Rightarrow>
               (Some FileNotFoundError,
                ds\<lparr>backups := (backups ds)(backup_dirname \<mapsto>
                      \<lparr>bak_data_yaml = None, bak_train = None, bak_valid = None, bak_test = None\<rparr>)\<rparr>)
           | Some y \<Rightarrow>
               (case copy_labels (labels (train ds)) of
                  (Some exc, b1) \<Rightarrow>
                    (Some exc,
                     ds\<lparr>backups := (backups ds)(backup_dirname \<mapsto>
                           \<lparr>bak_data_yaml = Some y, bak_train = b1,
                              bak_valid = None, bak_test = None\<rparr>)\<rparr>)
                | (None, b1) \<Rightarrow>
                    (case copy_labels (labels (valid ds)) of
                       (Some exc, b2) \<Rightarrow>
                         (Some exc,
                          ds\<lparr>backups := (backups ds)(backup_dirname \<mapsto>
                                \<lparr>bak_data_yaml = Some y, bak_train = b1,
                                   bak_valid = b2, bak_test = None\<rparr>)\<rparr>)
                     | (None, b2) \<Rightarrow>
                         (case copy_labels (labels (test ds)) of
                            (e, b3) \<Rightarrow>
                              (e,
                               ds\<lparr>backups := (backups ds)(backup_dirname \<mapsto>
                                     \<lparr>bak_data_yaml = Some y, bak_train = b1,
                                        bak_valid = b2, bak_test = b3\<rparr>)\<rparr>))))))"

section \<open>main\<close>

text \<open>\<open>cfg.get("names", [])\<close>: only a mapping has \<open>get\<close>.\<close>

fun dict_get :: "(yaml \<times> yaml) list \<Rightarrow> yaml \<Rightarrow> yaml \<Rightarrow> yaml" where
  "dict_get [] key dflt = dflt"
| "dict_get ((k, v) # kvs) key dflt = (if k = key then v else dict_get kvs key dflt)"

fun dict_set :: "(yaml \<times> yaml) list \<Rightarrow> yaml \<Rightarrow> yaml \<Rightarrow> (yaml \<times> yaml) list" where
  "dict_set [] key val = [(key, val)]"
| "dict_set ((k, v) # kvs) key val =
     (if k = key then (k, val) # kvs else (k, v) # dict_set kvs key val)"

fun cfg_get_names :: "yaml \<Rightarrow> py_exception + yaml" where
  "cfg_get_names (YDict kvs) = Inr (dict_get kvs (YStr ''names'') (YList []))"
| "cfg_get_names _ = Inl AttributeError"

text \<open>\<open>list(x)\<close>: the items of a list, the characters of a string, the keys of a mapping.\<close>

fun py_list :: "yaml \<Rightarrow> py_exception + yaml list" where
  "py_list (YList xs) = Inr xs"
| "py_list (YStr s) = Inr (map (\<lambda>c. YStr [c]) s)"
| "py_list (YDict kvs) = Inr (map fst kvs)"
| "py_list _ = Inl TypeError"

text \<open>
  \<open>build_names_and_remap\<close> calls \<open>strip\<close> on every name before anything is written:
  a name that is not a string raises \<open>AttributeError\<close>.
\<close>

fun as_strings :: "yaml list \<Rightarrow> py_exception + string list" where
  "as_strings [] = Inr []"
| "as_strings (YStr s # xs) = (case as_strings xs of Inl e \<Rightarrow> Inl e | Inr ss \<Rightarrow> Inr (s # ss))"
| "as_strings (_ # xs) = Inl AttributeError"

record args =
  args_apply :: bool
  args_backup_dirname :: string

record RemapReport =
  old_num_classes :: nat
  new_num_classes :: nat
  report_old_names :: "string list"
  report_new_names :: "string list"
  report_remap :: remap_table
  num_label_files_processed :: nat
  num_empty_label_files :: nat
  report_num_missing_images :: nat
  report_num_missing_labels :: nat
  report_issues :: "string list"

text \<open>
  How a run ends: the report it prints (the text of the summary is not modelled), a
  message on the error stream followed by \<open>sys.exit(1)\<close>, or an exception that nothing
  catches, which the interpreter reports on the error stream with exit status 1.
\<close>

datatype outcome = Completed RemapReport | Fatal string | Uncaught py_exception

fun exit_status :: "outcome \<Rightarrow> nat" where
  "exit_status (Completed _) = 0"
| "exit_status (Fatal _) = 1"
| "exit_status (Uncaught _) = 1"

definition update_manifest :: "yaml \<Rightarrow> string list \<Rightarrow> yaml" where
  "update_manifest cfg new_names =
     (case cfg of
        YDict kvs \<Rightarrow>
          YDict (dict_set (dict_set kvs (YStr ''names'') (YList (map YStr new_names)))
                   (YStr ''nc'') (YInt (int (length new_names))))
      | _ \<Rightarrow> cfg)"

text \<open>
  The part of \<open>main\<close> after the taxonomy has been read (source lines 209 to 246). An
  exception raised by \<open>backup_dataset\<close> or by \<open>process_split\<close> ends the run there, with
  what has been written until then.
\<close>

definition run_splits :: "args \<Rightarrow> yaml \<Rightarrow> string list \<Rightarrow> dataset \<Rightarrow> outcome \<times> dataset" where
  "run_splits a cfg old_names ds =
     (case build_names_and_remap old_names of
        (new_names, remap) \<Rightarrow>
          (case (if args_apply a then backup_dataset ds (args_backup_dirname a) else (None, ds)) of
             (Some exc, ds1) \<Rightarrow> (Uncaught exc, ds1)
           | (None, ds1) \<Rightarrow>
               (case process_split (train ds1) remap (args_apply a) of
                  (Inl exc, train') \<Rightarrow> (Uncaught exc, ds1\<lparr>train := train'\<rparr>)
                | (Inr (p1, e1, mi1, ml1, iss1), train') \<Rightarrow>
               (case process_split (valid ds1) remap (args_apply a) of
                  (Inl exc, valid') \<Rightarrow> (Uncaught exc, ds1\<lparr>train := train', valid := valid'\<rparr>)
                | (Inr (p2, e2, mi2, ml2, iss2), valid') \<Rightarrow>
               (case process_split (test ds1) remap (args_apply a) of
                  (Inl exc, test') \<Rightarrow>
                    (Uncaught exc, ds1\<lparr>train := train', valid := valid', test := test'\<rparr>)
                | (Inr (p3, e3, mi3, ml3, iss3), test') \<Rightarrow>
                 (let ds2 = ds1\<lparr>train := train', valid := valid', test := test'\<rparr>;
                      ds3 = (if args_apply a
                             then ds2\<lparr>data_yaml := Some (Parsed (update_manifest cfg new_names))\<rparr>
                             else ds2);
                      report = \<lparr>old_num_classes = length old_names,
                                new_num_classes = length new_names,
                                report_old_names = old_names,
                                report_new_names = new_names,
                                report_remap = remap,
                                num_label_files_processed = p1 + p2 + p3,
                                num_empty_label_files = e1 + e2 + e3,
                                report_num_missing_images = mi1 + mi2 + mi3,
                                report_num_missing_labels = ml1 + ml2 + ml3,
                                report_issues = iss1 @ iss2 @ iss3\<rparr>
                  in (Completed report, ds3)))))))"

text \<open>
  \<open>main\<close> up to the call of \<open>build_names_and_remap\<close> (source lines 197 to 209). The
  test \<open>not isinstance(old_names, list)\<close> of line 206 is applied to the result of
  \<open>list(...)\<close>, which is always a list, so only \<open>not old_names\<close> has a branch.
\<close>

definition main :: "args \<Rightarrow> dataset \<Rightarrow> outcome \<times> dataset" where
  "main a ds =
     (case data_yaml ds of
        None \<Rightarrow> (Fatal (''ERROR: data.yaml not found at '' @ data_yaml_path ds), ds)
      | Some Unparsable \<Rightarrow> (Uncaught LoadError, ds)
      | Some (Parsed cfg) \<Rightarrow>
          (case cfg_get_names cfg of
             Inl exc \<Rightarrow> (Uncaught exc, ds)
           | Inr v \<Rightarrow>
               (case py_list v of
                  Inl exc \<Rightarrow> (Uncaught exc, ds)
                | Inr old_names \<Rightarrow>
                    if old_names = []
                    then (Fatal (''ERROR: '' @ [CHR 0x27] @ ''names'' @ [CHR 0x27]
                                 @ '' missing or invalid in data.yaml''), ds)
                    else (case as_strings old_names of
                            Inl exc \<Rightarrow> (Uncaught exc, ds)
                          | Inr names \<Rightarrow> run_splits a cfg names ds))))"

section \<open>The rewrite of a label file, as the specification words it\<close>

text \<open>
  Two definitions that follow the specification rather than the source, to compare the
  loop with: a tokenised line is kept when it has a first token that parses as an
  integer with an entry in the table, and the first token of a kept line becomes the
  decimal form of the new index when that differs from the old one.
\<close>

definition line_is_kept :: "remap_table \<Rightarrow> string list \<Rightarrow> bool" where
  "line_is_kept remap parts \<longleftrightarrow>
     (case parts of
        [] \<Rightarrow> False
      | p0 # _ \<Rightarrow> (case py_int p0 of None \<Rightarrow> False | Some k \<Rightarrow> remap k \<noteq> None))"

definition new_class_token :: "remap_table \<Rightarrow> string \<Rightarrow> string" where
  "new_class_token remap p0 =
     (case py_int p0 of
        None \<Rightarrow> p0
      | Some k \<Rightarrow> (case remap k of None \<Rightarrow> p0 | Some v \<Rightarrow> if v \<noteq> k then str_int v else p0))"

section \<open>Characters and tokens\<close>

lemma isspace_code: "isspace c \<Longrightarrow> (of_char c :: nat) \<in> {9,10,11,12,13,28,29,30,31,32,133,160}"
  unfolding isspace_def by auto

lemma of_char_lower_char:
  "is_upper c \<Longrightarrow> (of_char (lower_char c) :: nat) = of_char c + 32"
  unfolding lower_char_def is_upper_def Let_def by auto

lemma is_upper_lower_char: "\<not> is_upper (lower_char c)"
proof (cases "is_upper c")
  case True
  from of_char_lower_char [OF True] True show ?thesis
    unfolding is_upper_def Let_def by auto
next
  case False
  then show ?thesis by (simp add: lower_char_def)
qed

lemma lower_char_idem: "lower_char (lower_char c) = lower_char c"
  using is_upper_lower_char [of c] by (simp add: lower_char_def [of "lower_char c"])

lemma isspace_lower_char: "isspace (lower_char c) \<longleftrightarrow> isspace c"
proof (cases "is_upper c")
  case True
  have "\<not> isspace (lower_char c)"
  proof
    assume "isspace (lower_char c)"
    from isspace_code [OF this] of_char_lower_char [OF True] True show False
      unfolding is_upper_def Let_def by auto
  qed
  moreover have "\<not> isspace c"
  proof
    assume "isspace c"
    from isspace_code [OF this] True show False
      unfolding is_upper_def Let_def by auto
  qed
  ultimately show ?thesis by simp
next
  case False
  then show ?thesis by (simp add: lower_char_def)
qed

lemma lower_char_hyphen: "lower_char c = CHR ''-'' \<longleftrightarrow> c = CHR ''-''"
proof (cases "is_upper c")
  case True
  have "lower_char c \<noteq> CHR ''-''"
  proof
    assume "lower_char c = CHR ''-''"
    then have "(of_char (lower_char c) :: nat) = 45" by simp
    with of_char_lower_char [OF True] True show False
      unfolding is_upper_def Let_def by auto
  qed
  moreover have "c \<noteq> CHR ''-''" using True unfolding is_upper_def Let_def by auto
  ultimately show ?thesis by simp
next
  case False
  then show ?thesis by (simp add: lower_char_def)
qed

lemma lower_char_underscore: "lower_char c = CHR ''_'' \<longleftrightarrow> c = CHR ''_''"
proof (cases "is_upper c")
  case True
  have "lower_char c \<noteq> CHR ''_''"
  proof
    assume "lower_char c = CHR ''_''"
    then have "(of_char (lower_char c) :: nat) = 95" by simp
    with of_char_lower_char [OF True] True show False
      unfolding is_upper_def Let_def by auto
  qed
  moreover have "c \<noteq> CHR ''_''" using True unfolding is_upper_def Let_def by auto
  ultimately show ?thesis by simp
next
  case False
  then show ?thesis by (simp add: lower_char_def)
qed


lemma dropWhile_none: "\<forall>c\<in>set s. \<not> P c \<Longrightarrow> dropWhile P s = s"
  by (cases s) auto

lemma strip_no_space: "\<forall>c\<in>set s. \<not> isspace c \<Longrightarrow> strip s = s"
  by (simp add: strip_def dropWhile_none)

lemma split_ws_Nil: "split_ws [] = []"
  by (simp add: split_ws.simps)

lemma split_ws_dropWhile: "split_ws (dropWhile isspace s) = split_ws s"
  by (simp add: split_ws.simps [of s] split_ws.simps [of "dropWhile isspace s"])

lemma split_ws_tokens:
  "t \<in> set (split_ws s) \<Longrightarrow> t \<noteq> [] \<and> (\<forall>c\<in>set t. \<not> isspace c) \<and> set t \<subseteq> set s"
proof (induction s arbitrary: t rule: split_ws.induct)
  case (1 s)
  define s' where "s' = dropWhile isspace s"
  show ?case
  proof (cases "s' = []")
    case True
    with "1.prems" show ?thesis by (simp add: split_ws.simps [of s] s'_def)
  next
    case False
    then obtain c cs where cs: "s' = c # cs" by (cases s') auto
    have nsp: "\<not> isspace c" using cs s'_def by (metis hd_dropWhile list.sel(1) list.distinct(1))
    have sub: "set s' \<subseteq> set s" unfolding s'_def by (auto dest: set_dropWhileD)
    have eq: "split_ws s = takeWhile (\<lambda>c. \<not> isspace c) s' # split_ws (dropWhile (\<lambda>c. \<not> isspace c) s')"
      by (subst split_ws.simps) (simp only: Let_def s'_def [symmetric] False if_False)
    from "1.prems" eq
    consider "t = takeWhile (\<lambda>c. \<not> isspace c) s'"
      | "t \<in> set (split_ws (dropWhile (\<lambda>c. \<not> isspace c) s'))"
      by auto
    then show ?thesis
    proof cases
      case 1
      have "t \<noteq> []" using 1 cs nsp by simp
      moreover have "\<forall>c\<in>set t. \<not> isspace c" using 1 by (auto dest: set_takeWhileD)
      moreover have "set t \<subseteq> set s" using 1 sub by (auto dest: set_takeWhileD)
      ultimately show ?thesis by simp
    next
      case 2
      from "1.IH" [OF s'_def False 2]
      have "t \<noteq> [] \<and> (\<forall>c\<in>set t. \<not> isspace c) \<and> set t \<subseteq> set (dropWhile (\<lambda>c. \<not> isspace c) s')" .
      with sub show ?thesis by (auto dest: set_dropWhileD)
    qed
  qed
qed

lemma split_ws_token_app:
  assumes "x \<noteq> []" and "\<forall>c\<in>set x. \<not> isspace c" and "rest = [] \<or> isspace (hd rest)"
  shows "split_ws (x @ rest) = x # split_ws rest"
proof -
  from assms(1) obtain c cs where x: "x = c # cs" by (cases x) auto
  with assms(2) have c: "\<not> isspace c" by simp
  have d: "dropWhile isspace (x @ rest) = x @ rest" using x c by simp
  have tr: "takeWhile (\<lambda>c. \<not> isspace c) rest = []" using assms(3) by (cases rest) auto
  have dr: "dropWhile (\<lambda>c. \<not> isspace c) rest = rest" using assms(3) by (cases rest) auto
  have t: "takeWhile (\<lambda>c. \<not> isspace c) (x @ rest) = x"
    using assms(2) tr by (simp add: takeWhile_append2)
  have r: "dropWhile (\<lambda>c. \<not> isspace c) (x @ rest) = rest"
    using assms(2) dr by (simp add: dropWhile_append2)
  have ne: "x @ rest \<noteq> []" using x by simp
  show ?thesis
    by (subst split_ws.simps) (simp only: d t r Let_def ne if_False)
qed

lemma isspace_space: "isspace (CHR '' '')"
  by (simp add: isspace_def)

lemma split_ws_join:
  "\<forall>t\<in>set ts. t \<noteq> [] \<and> (\<forall>c\<in>set t. \<not> isspace c) \<Longrightarrow> split_ws (join '' '' ts) = ts"
proof (induction ts)
  case Nil
  then show ?case by (simp add: split_ws_Nil)
next
  case (Cons x ts)
  have x: "x \<noteq> []" "\<forall>c\<in>set x. \<not> isspace c" using Cons.prems by auto
  show ?case
  proof (cases ts)
    case Nil
    with split_ws_token_app [OF x, of "[]"] show ?thesis by (simp add: split_ws_Nil)
  next
    case (Cons y ys)
    have "split_ws (x @ CHR '' '' # join '' '' ts) = x # split_ws (CHR '' '' # join '' '' ts)"
      by (rule split_ws_token_app [OF x]) (simp add: isspace_space)
    also have "split_ws (CHR '' '' # join '' '' ts) = split_ws (join '' '' ts)"
      using split_ws_dropWhile [of "CHR '' '' # join '' '' ts"] split_ws_dropWhile [of "join '' '' ts"]
      by (simp add: isspace_space)
    also have "\<dots> = ts" using Cons.IH Cons.prems by simp
    finally show ?thesis using Cons by simp
  qed
qed

lemma map_join: "map f (join sep ts) = join (map f sep) (map (map f) ts)"
  by (induction sep ts rule: join.induct) auto

lemma set_join: "set (join sep ts) \<subseteq> set sep \<union> \<Union> (set ` set ts)"
  by (induction sep ts rule: join.induct) auto

lemma alias_lookup_cases:
  "alias_lookup al name = name \<or> alias_lookup al name \<in> fst ` set al"
  by (induction al name rule: alias_lookup.induct) auto




lemma normalize_unfold:
  "normalize_label_name raw =
     alias_lookup safe_aliases
       (replace_char (CHR '' '') (CHR ''_'')
         (join '' '' (split_ws
           (replace_char (CHR ''_'') (CHR '' '')
             (replace_char (CHR ''-'') (CHR '' '') (lower (strip raw)))))))"
  by (simp add: normalize_label_name_def Let_def)

lemma normalize_tokens:
  assumes ts: "\<forall>t\<in>set ts. t \<noteq> [] \<and>
             (\<forall>c\<in>set t. \<not> isspace c \<and> c \<noteq> CHR ''-'' \<and> c \<noteq> CHR ''_'' \<and> lower_char c = c)"
  shows "replace_char (CHR '' '') (CHR ''_'') (join '' '' ts) = join ''_'' ts"
    and "split_ws (replace_char (CHR ''_'') (CHR '' '')
           (replace_char (CHR ''-'') (CHR '' '') (lower (strip (join ''_'' ts))))) = ts"
proof -
  have f1: "\<not> isspace c" if "t \<in> set ts" "c \<in> set t" for t c using ts that by blast
  have f2: "c \<noteq> CHR ''-''" if "t \<in> set ts" "c \<in> set t" for t c using ts that by blast
  have f3: "c \<noteq> CHR ''_''" if "t \<in> set ts" "c \<in> set t" for t c using ts that by blast
  have f4: "lower_char c = c" if "t \<in> set ts" "c \<in> set t" for t c using ts that by blast
  have f5: "c \<noteq> CHR '' ''" if "t \<in> set ts" "c \<in> set t" for t c
    using f1 [OF that] isspace_space by blast
  have f6: "t \<noteq> []" if "t \<in> set ts" for t using ts that by blast
  have m1: "map (map (\<lambda>c. if c = CHR '' '' then CHR ''_'' else c)) ts = ts"
    by (rule map_idI, rule map_idI) (simp add: f5)
  show "replace_char (CHR '' '') (CHR ''_'') (join '' '' ts) = join ''_'' ts"
    unfolding replace_char_def map_join m1 by simp
  have us: "\<not> isspace (CHR ''_'')" by (simp add: isspace_def)
  have "\<not> isspace c" if "c \<in> set (join ''_'' ts)" for c
  proof -
    from that set_join [of "''_''" ts] have "c = CHR ''_'' \<or> (\<exists>t\<in>set ts. c \<in> set t)" by auto
    then show ?thesis using us f1 by blast
  qed
  then have s: "strip (join ''_'' ts) = join ''_'' ts" by (intro strip_no_space) blast
  have lu: "lower_char (CHR ''_'') = CHR ''_''" by (simp add: lower_char_underscore)
  have m2: "map (map lower_char) ts = ts"
    by (rule map_idI, rule map_idI) (simp add: f4)
  have l: "lower (join ''_'' ts) = join ''_'' ts"
    unfolding lower_def map_join m2 by (simp add: lu)
  have m3: "map (map (\<lambda>c. if c = CHR ''-'' then CHR '' '' else c)) ts = ts"
    by (rule map_idI, rule map_idI) (simp add: f2)
  have m4: "map (map (\<lambda>c. if c = CHR ''_'' then CHR '' '' else c)) ts = ts"
    by (rule map_idI, rule map_idI) (simp add: f3)
  have r: "replace_char (CHR ''_'') (CHR '' '') (replace_char (CHR ''-'') (CHR '' '') (join ''_'' ts))
           = join '' '' ts"
    unfolding replace_char_def map_join m3 m4 by simp
  have "split_ws (join '' '' ts) = ts" using f1 f6 by (intro split_ws_join) blast
  then show "split_ws (replace_char (CHR ''_'') (CHR '' '')
           (replace_char (CHR ''-'') (CHR '' '') (lower (strip (join ''_'' ts))))) = ts"
    unfolding s l r .
qed

section \<open>Idempotence of normalize\_label\_name\<close>

lemma normalize_canonical_each:
  "normalize_label_name ''damaged_roof'' = ''damaged_roof''"
  "normalize_label_name ''wall_leaking'' = ''wall_leaking''"
  "normalize_label_name ''broken_window'' = ''broken_window''"
  "normalize_label_name ''building'' = ''building''"
  "normalize_label_name ''roof'' = ''roof''"
  "normalize_label_name ''window'' = ''window''"
  "normalize_label_name ''crack'' = ''crack''"
  "normalize_label_name ''damage'' = ''damage''"
  by code_simp+

lemma normalize_canonical:
  assumes "c \<in> fst ` set safe_aliases"
  shows "normalize_label_name c = c"
proof -
  from assms have "c \<in> {''damaged_roof'', ''wall_leaking'', ''broken_window'', ''building'',
                       ''roof'', ''window'', ''crack'', ''damage''}"
    unfolding safe_aliases_def by (simp only: list.set image_insert image_empty fst_conv)
  then show ?thesis
    using normalize_canonical_each by (elim insertE emptyE) (simp_all only:)
qed

lemma normalize_label_name_idem:
  "normalize_label_name (normalize_label_name raw) = normalize_label_name raw"
proof -
  define b where "b = replace_char (CHR ''_'') (CHR '' '')
             (replace_char (CHR ''-'') (CHR '' '') (lower (strip raw)))"
  define ts where "ts = split_ws b"
  have bchars: "\<forall>c\<in>set b. c \<noteq> CHR ''-'' \<and> c \<noteq> CHR ''_'' \<and> (c = CHR '' '' \<or> lower_char c = c)"
    unfolding b_def replace_char_def lower_def
    by (auto simp: lower_char_idem lower_char_hyphen lower_char_underscore)
  have good: "\<forall>t\<in>set ts. t \<noteq> [] \<and>
             (\<forall>c\<in>set t. \<not> isspace c \<and> c \<noteq> CHR ''-'' \<and> c \<noteq> CHR ''_'' \<and> lower_char c = c)"
  proof
    fix t assume "t \<in> set ts"
    from split_ws_tokens [OF this [unfolded ts_def]]
    have t: "t \<noteq> []" "\<forall>c\<in>set t. \<not> isspace c" "set t \<subseteq> set b" by auto
    show "t \<noteq> [] \<and> (\<forall>c\<in>set t. \<not> isspace c \<and> c \<noteq> CHR ''-'' \<and> c \<noteq> CHR ''_'' \<and> lower_char c = c)"
      using t bchars isspace_space by (metis subsetD)
  qed
  define n where "n = join ''_'' ts"
  have n1: "normalize_label_name raw = alias_lookup safe_aliases n"
    unfolding normalize_unfold [of raw] n_def ts_def b_def [symmetric]
    using normalize_tokens(1) [OF good] by (simp add: ts_def)
  have n2: "normalize_label_name n = alias_lookup safe_aliases n"
    unfolding normalize_unfold [of n]
    using normalize_tokens [OF good] by (simp add: n_def)
  from alias_lookup_cases [of safe_aliases n] show ?thesis
  proof
    assume "alias_lookup safe_aliases n = n"
    with n1 n2 show ?thesis by simp
  next
    assume "alias_lookup safe_aliases n \<in> fst ` set safe_aliases"
    from normalize_canonical [OF this] n1 show ?thesis by simp
  qed
qed

text \<open>
  Claim C6. For every input string \<open>raw\<close>, normalising twice gives the same result as
  normalising once: \<open>normalize_label_name\<close> is idempotent.
\<close>

theorem normalize_label_name_idempotent:
  "normalize_label_name (normalize_label_name raw) = normalize_label_name raw"
  by (rule normalize_label_name_idem)

section \<open>The remap table built by build\_names\_and\_remap\<close>

lemma first_seen_snoc:
  "rev (remdups (rev (xs @ [x]))) =
     (if x \<in> set xs then rev (remdups (rev xs)) else rev (remdups (rev xs)) @ [x])"
  by simp

lemma build_loop_invariant:
  assumes "build_loop (int (length pre)) names seen acc remap = (new_names, remap')"
    and "acc = rev (remdups (rev (map normalize_label_name pre)))"
    and "\<forall>s k. seen s = Some k \<longrightarrow> (\<exists>j<length acc. k = int j \<and> acc ! j = s)"
    and "\<forall>s\<in>set acc. seen s \<noteq> None"
    and "dom remap = {0..<int (length pre)}"
    and "\<forall>i<length pre. \<exists>j<length acc. remap (int i) = Some (int j)
            \<and> acc ! j = normalize_label_name (pre ! i)"
  shows "new_names = rev (remdups (rev (map normalize_label_name (pre @ names))))
    \<and> dom remap' = {0..<int (length (pre @ names))}
    \<and> (\<forall>i<length (pre @ names). \<exists>j<length new_names. remap' (int i) = Some (int j)
            \<and> new_names ! j = normalize_label_name ((pre @ names) ! i))"
  using assms
proof (induction names arbitrary: pre seen acc remap)
  case Nil
  then show ?case by simp
next
  case (Cons name rest)
  define norm where "norm = normalize_label_name name"
  define pre' where "pre' = pre @ [name]"
  have len: "int (length pre) + 1 = int (length pre')" by (simp add: pre'_def)
  have app: "pre' @ rest = pre @ name # rest" by (simp add: pre'_def)
  have setacc: "set acc = normalize_label_name ` set pre" using Cons.prems(2) by simp
  show ?case
  proof (cases "seen norm")
    case None
    define acc' where "acc' = acc @ [norm]"
    define seen' where "seen' = seen(norm \<mapsto> int (length acc))"
    define rm where "rm = remap(int (length pre) \<mapsto> int (length acc))"
    have notin: "norm \<notin> set acc" using None Cons.prems(4) by auto
    have run: "build_loop (int (length pre')) rest seen' acc' rm = (new_names, remap')"
      using Cons.prems(1) None
      by (simp add: norm_def [symmetric] Let_def len seen'_def acc'_def rm_def)
    have a: "acc' = rev (remdups (rev (map normalize_label_name pre')))"
      using notin setacc Cons.prems(2)
      by (simp add: pre'_def acc'_def norm_def)
    have b: "\<forall>s k. seen' s = Some k \<longrightarrow> (\<exists>j<length acc'. k = int j \<and> acc' ! j = s)"
    proof (intro allI impI)
      fix s k assume sk: "seen' s = Some k"
      show "\<exists>j<length acc'. k = int j \<and> acc' ! j = s"
      proof (cases "s = norm")
        case True
        with sk have "k = int (length acc)" by (simp add: seen'_def)
        with True show ?thesis by (intro exI [of _ "length acc"]) (simp add: acc'_def)
      next
        case False
        with sk have "seen s = Some k" by (simp add: seen'_def)
        with Cons.prems(3) obtain j where "j < length acc" "k = int j" "acc ! j = s" by blast
        then show ?thesis by (intro exI [of _ j]) (simp add: acc'_def nth_append)
      qed
    qed
    have c: "\<forall>s\<in>set acc'. seen' s \<noteq> None"
      using Cons.prems(4) by (auto simp: acc'_def seen'_def)
    have d: "dom rm = {0..<int (length pre')}"
      using Cons.prems(5) by (auto simp: rm_def pre'_def)
    have e: "\<forall>i<length pre'. \<exists>j<length acc'. rm (int i) = Some (int j)
            \<and> acc' ! j = normalize_label_name (pre' ! i)"
    proof (intro allI impI)
      fix i assume i: "i < length pre'"
      show "\<exists>j<length acc'. rm (int i) = Some (int j) \<and> acc' ! j = normalize_label_name (pre' ! i)"
      proof (cases "i < length pre")
        case True
        with Cons.prems(6) obtain j where "j < length acc" "remap (int i) = Some (int j)"
          "acc ! j = normalize_label_name (pre ! i)" by blast
        with True show ?thesis
          by (intro exI [of _ j]) (simp add: rm_def acc'_def pre'_def nth_append)
      next
        case False
        with i have "i = length pre" by (simp add: pre'_def)
        then show ?thesis
          by (intro exI [of _ "length acc"]) (simp add: rm_def acc'_def pre'_def norm_def)
      qed
    qed
    from Cons.IH [OF run a b c d e] show ?thesis unfolding app .
  next
    case (Some k)
    define rm where "rm = remap(int (length pre) \<mapsto> k)"
    from Some Cons.prems(3) obtain j0 where j0: "j0 < length acc" "k = int j0" "acc ! j0 = norm"
      by blast
    then have isin: "norm \<in> set acc" by (metis nth_mem)
    have run: "build_loop (int (length pre')) rest seen acc rm = (new_names, remap')"
      using Cons.prems(1) Some
      by (simp add: norm_def [symmetric] Let_def len rm_def)
    have a: "acc = rev (remdups (rev (map normalize_label_name pre')))"
      using isin setacc Cons.prems(2)
      by (simp add: pre'_def norm_def)
    have d: "dom rm = {0..<int (length pre')}"
      using Cons.prems(5) by (auto simp: rm_def pre'_def)
    have e: "\<forall>i<length pre'. \<exists>j<length acc. rm (int i) = Some (int j)
            \<and> acc ! j = normalize_label_name (pre' ! i)"
    proof (intro allI impI)
      fix i assume i: "i < length pre'"
      show "\<exists>j<length acc. rm (int i) = Some (int j) \<and> acc ! j = normalize_label_name (pre' ! i)"
      proof (cases "i < length pre")
        case True
        with Cons.prems(6) obtain j where "j < length acc" "remap (int i) = Some (int j)"
          "acc ! j = normalize_label_name (pre ! i)" by blast
        with True show ?thesis
          by (intro exI [of _ j]) (simp add: rm_def pre'_def nth_append)
      next
        case False
        with i have "i = length pre" by (simp add: pre'_def)
        with j0 show ?thesis
          by (intro exI [of _ j0]) (simp add: rm_def pre'_def norm_def)
      qed
    qed
    from Cons.IH [OF run a Cons.prems(3) Cons.prems(4) d e] show ?thesis unfolding app .
  qed
qed

lemma build_names_and_remap_spec:
  assumes "build_names_and_remap old_names = (new_names, remap)"
  shows "new_names = rev (remdups (rev (map normalize_label_name old_names)))"
    and "dom remap = {0..<int (length old_names)}"
    and "\<forall>i<length old_names. \<exists>j<length new_names. remap (int i) = Some (int j)
            \<and> new_names ! j = normalize_label_name (old_names ! i)"
proof -
  have run: "build_loop (int (length ([] :: string list))) old_names Map.empty [] Map.empty
               = (new_names, remap)"
    using assms by (simp add: build_names_and_remap_def)
  have "new_names = rev (remdups (rev (map normalize_label_name ([] @ old_names))))
    \<and> dom remap = {0..<int (length ([] @ old_names))}
    \<and> (\<forall>i<length ([] @ old_names). \<exists>j<length new_names. remap (int i) = Some (int j)
            \<and> new_names ! j = normalize_label_name (([] @ old_names) ! i))"
    by (rule build_loop_invariant [OF run]) simp_all
  note c = this [unfolded append_Nil]
  from c show "new_names = rev (remdups (rev (map normalize_label_name old_names)))" by (rule conjunct1)
  from c show "dom remap = {0..<int (length old_names)}" by (rule conjunct1 [OF conjunct2])
  from c show "\<forall>i<length old_names. \<exists>j<length new_names. remap (int i) = Some (int j)
            \<and> new_names ! j = normalize_label_name (old_names ! i)" by (rule conjunct2 [OF conjunct2])
qed

lemma build_names_and_remap_ran:
  assumes "build_names_and_remap old_names = (new_names, remap)"
  shows "ran remap = {0..<int (length new_names)}"
proof -
  note s = build_names_and_remap_spec [OF assms]
  have dist: "distinct new_names" unfolding s(1) by simp
  have sub: "ran remap \<subseteq> {0..<int (length new_names)}"
  proof
    fix v assume "v \<in> ran remap"
    then obtain i where iv: "remap i = Some v" by (auto simp: ran_def)
    then have "i \<in> dom remap" by auto
    with s(2) have "0 \<le> i" "i < int (length old_names)" by auto
    then obtain n where n: "i = int n" "n < length old_names" by (metis nonneg_int_cases of_nat_less_iff)
    with s(3) obtain j where "j < length new_names" "remap (int n) = Some (int j)" by blast
    with iv n show "v \<in> {0..<int (length new_names)}" by simp
  qed
  have sup: "{0..<int (length new_names)} \<subseteq> ran remap"
  proof
    fix v assume "v \<in> {0..<int (length new_names)}"
    then obtain j where j: "v = int j" "j < length new_names"
      by (metis atLeastLessThan_iff nonneg_int_cases of_nat_less_iff)
    then have "new_names ! j \<in> set new_names" by simp
    then have "new_names ! j \<in> normalize_label_name ` set old_names" unfolding s(1) by simp
    then obtain i where i: "i < length old_names" "normalize_label_name (old_names ! i) = new_names ! j"
      by (metis (no_types, lifting) imageE in_set_conv_nth)
    with s(3) obtain j' where j': "j' < length new_names" "remap (int i) = Some (int j')"
      "new_names ! j' = normalize_label_name (old_names ! i)" by blast
    with i j dist have "j' = j" by (simp add: nth_eq_iff_index_eq)
    with j' j show "v \<in> ran remap" by (auto simp: ran_def)
  qed
  from sub sup show ?thesis by blast
qed

text \<open>
  Claim C3. For a non-empty list of \<open>N\<close> raw class names, \<open>build_names_and_remap\<close>
  returns a table whose domain is exactly the old indices \<open>0..<N\<close> and whose range is
  exactly \<open>0..<M\<close>, where \<open>M\<close> is the length of the returned taxonomy; \<open>M \<le> N\<close>, the
  taxonomy has no duplicates, and it lists the canonical names in the order of their
  first appearance (the normalised names with every later repetition removed). Every
  old index is sent to the position of its canonical name.
\<close>

theorem build_names_and_remap_total_dense:
  assumes "old_names \<noteq> []"
    and "build_names_and_remap old_names = (new_names, remap)"
  shows "dom remap = {0..<int (length old_names)}
    \<and> ran remap = {0..<int (length new_names)}
    \<and> new_names \<noteq> []
    \<and> length new_names \<le> length old_names
    \<and> distinct new_names
    \<and> new_names = rev (remdups (rev (map normalize_label_name old_names)))
    \<and> (\<forall>i<length old_names. \<exists>j<length new_names. remap (int i) = Some (int j)
            \<and> new_names ! j = normalize_label_name (old_names ! i))"
proof -
  note s = build_names_and_remap_spec [OF assms(2)]
  have ne: "new_names \<noteq> []" using assms(1) unfolding s(1) by simp
  have le: "length new_names \<le> length old_names"
    unfolding s(1) using length_remdups_leq [of "rev (map normalize_label_name old_names)"] by simp
  have dist: "distinct new_names" unfolding s(1) by simp
  from s(2) build_names_and_remap_ran [OF assms(2)] ne le dist s(1) s(3)
  show ?thesis by blast
qed

theorem build_names_and_remap_total_dense_witness:
  "[''Damaged Roof'', ''damaged-roof'', ''Window''] \<noteq> []
   \<and> fst (build_names_and_remap [''Damaged Roof'', ''damaged-roof'', ''Window''])
       = [''damaged_roof'', ''window'']
   \<and> dom (snd (build_names_and_remap [''Damaged Roof'', ''damaged-roof'', ''Window''])) = {0..<3}
   \<and> ran (snd (build_names_and_remap [''Damaged Roof'', ''damaged-roof'', ''Window''])) = {0..<2}"
proof -
  let ?xs = "[''Damaged Roof'', ''damaged-roof'', ''Window'']"
  have ne: "?xs \<noteq> []" by simp
  have e: "fst (build_names_and_remap ?xs) = [''damaged_roof'', ''window'']" by code_simp
  have p: "build_names_and_remap ?xs = (fst (build_names_and_remap ?xs), snd (build_names_and_remap ?xs))"
    by simp
  from build_names_and_remap_total_dense [OF ne p] e show ?thesis by simp
qed

section \<open>The loops of process\_split in closed form\<close>

lemma process_lines_eq:
  "process_lines path remap lns (new_lines, changed, issues) =
     (new_lines @ concat (map (\<lambda>ln. case process_line path remap ln of
                                     Kept l ch \<Rightarrow> [l] | _ \<Rightarrow> []) lns),
      changed \<or> (\<exists>ln\<in>set lns. \<exists>l. process_line path remap ln = Kept l True),
      issues @ concat (map (\<lambda>ln. case process_line path remap ln of
                                     Rejected msg \<Rightarrow> [msg] | _ \<Rightarrow> []) lns))"
proof (induction lns arbitrary: new_lines changed issues)
  case Nil
  then show ?case by simp
next
  case (Cons ln lns)
  show ?case
  proof (cases "process_line path remap ln")
    case Skipped
    then show ?thesis using Cons.IH by simp
  next
    case (Rejected msg)
    then show ?thesis using Cons.IH by simp
  next
    case (Kept l ch)
    then show ?thesis using Cons.IH by (cases ch) auto
  qed
qed

lemma process_line_Kept_True:
  "process_line path remap ln = Kept l True \<longleftrightarrow>
     (\<exists>p0 ps k v. split_ws (strip ln) = p0 # ps \<and> py_int p0 = Some k \<and> remap k = Some v
        \<and> v \<noteq> k \<and> l = join '' '' (str_int v # ps))"
  by (auto simp: process_line_def split: list.splits option.splits)

lemma process_line_Skipped:
  "process_line path remap ln = Skipped \<longleftrightarrow> split_ws (strip ln) = []"
  by (auto simp: process_line_def split: list.splits option.splits)

lemma process_label_file_Inr:
  assumes "lbl_content f = Inr text"
  shows "process_label_file remap do_apply f (np, ne, iss) =
     (if strip text = [] then (None, (np + 1, ne + 1, iss))
      else (if do_apply \<and> (\<exists>ln\<in>set (splitlines (strip text)). \<exists>l.
                              process_line (lbl_path f) remap ln = Kept l True)
            then Some (join [CHR 0x0A]
                        (concat (map (\<lambda>ln. case process_line (lbl_path f) remap ln of
                                             Kept l ch \<Rightarrow> [l] | _ \<Rightarrow> [])
                                     (splitlines (strip text)))) @ [CHR 0x0A])
            else None,
            (np + 1, ne,
             iss @ concat (map (\<lambda>ln. case process_line (lbl_path f) remap ln of
                                        Rejected msg \<Rightarrow> [msg] | _ \<Rightarrow> [])
                               (splitlines (strip text))))))"
  using assms by (simp add: process_label_file_def Let_def process_lines_eq)

lemma process_label_file_Inl:
  assumes "lbl_content f = Inl e"
  shows "process_label_file remap do_apply f (np, ne, iss) =
     (None, (np + 1, ne,
             iss @ [''Failed reading '' @ lbl_path f @ '': '' @ failure_message e]))"
  using assms by (simp add: process_label_file_def)

lemma process_label_file_dry_run: "fst (process_label_file remap False f st) = None"
  by (cases st; cases "lbl_content f")
     (simp_all add: process_label_file_Inl process_label_file_Inr)

lemma process_label_file_identity:
  assumes "\<forall>k v. remap k = Some v \<longrightarrow> v = k"
  shows "fst (process_label_file remap do_apply f st) = None"
proof -
  have "process_line (lbl_path f) remap ln \<noteq> Kept l True" for ln l
    using assms by (auto simp: process_line_Kept_True)
  then show ?thesis
    by (cases st; cases "lbl_content f")
       (simp_all add: process_label_file_Inl process_label_file_Inr)
qed

section \<open>The table rebuilt from the canonical taxonomy\<close>

lemma rebuilt_table_identity:
  assumes b1: "build_names_and_remap old_names = (new_names, remap)"
    and b2: "build_names_and_remap new_names = (new_names', remap')"
  shows "new_names' = new_names"
    and "\<forall>j<length new_names. remap' (int j) = Some (int j)"
    and "\<forall>k v. remap' k = Some v \<longrightarrow> v = k"
proof -
  note s1 = build_names_and_remap_spec [OF b1]
  note s2 = build_names_and_remap_spec [OF b2]
  have dist: "distinct new_names" unfolding s1(1) by simp
  have fixd: "normalize_label_name x = x" if "x \<in> set new_names" for x
  proof -
    from that have "x \<in> normalize_label_name ` set old_names" unfolding s1(1) by simp
    then show ?thesis by (auto simp: normalize_label_name_idem)
  qed
  then have m: "map normalize_label_name new_names = new_names" by (intro map_idI)
  have "rev (remdups (rev new_names)) = new_names" using dist by (simp add: distinct_remdups_id)
  with s2(1) m show same: "new_names' = new_names" by simp
  show id: "\<forall>j<length new_names. remap' (int j) = Some (int j)"
  proof (intro allI impI)
    fix j assume j: "j < length new_names"
    with s2(3) obtain j' where j': "j' < length new_names'" "remap' (int j) = Some (int j')"
      "new_names' ! j' = normalize_label_name (new_names ! j)" by blast
    have "normalize_label_name (new_names ! j) = new_names ! j" using j by (intro fixd) simp
    with j' same have "new_names ! j' = new_names ! j" "j' < length new_names" by simp_all
    with dist j have "j' = j" by (simp add: nth_eq_iff_index_eq)
    with j' show "remap' (int j) = Some (int j)" by simp
  qed
  show "\<forall>k v. remap' k = Some v \<longrightarrow> v = k"
  proof (intro allI impI)
    fix k v assume kv: "remap' k = Some v"
    then have "k \<in> dom remap'" by auto
    with s2(2) have "0 \<le> k" "k < int (length new_names)" by auto
    then obtain j where "k = int j" "j < length new_names"
      by (metis nonneg_int_cases of_nat_less_iff)
    with id kv show "v = k" by auto
  qed
qed

lemma remap_value_in_range:
  assumes b1: "build_names_and_remap old_names = (new_names, remap)"
    and "remap i = Some v"
  shows "\<exists>j<length new_names. v = int j"
proof -
  note s1 = build_names_and_remap_spec [OF b1]
  from assms(2) have "i \<in> dom remap" by auto
  with s1(2) have "0 \<le> i" "i < int (length old_names)" by auto
  then obtain n where n: "i = int n" "n < length old_names"
    by (metis nonneg_int_cases of_nat_less_iff)
  with s1(3) obtain j where "j < length new_names" "remap (int n) = Some (int j)" by blast
  with assms(2) n show ?thesis by auto
qed

section \<open>Scenario: swapping two class ids\<close>

lemma swap_scenario_lines:
  "strip (''1 0.5 0.5 0.2 0.2\<newline>0 0.1 0.1 0.05 0.05'')
     = ''1 0.5 0.5 0.2 0.2\<newline>0 0.1 0.1 0.05 0.05''"
  "splitlines (''1 0.5 0.5 0.2 0.2\<newline>0 0.1 0.1 0.05 0.05'')
     = [''1 0.5 0.5 0.2 0.2'', ''0 0.1 0.1 0.05 0.05'']"
  "split_ws (strip ''1 0.5 0.5 0.2 0.2'') = [''1'', ''0.5'', ''0.5'', ''0.2'', ''0.2'']"
  "split_ws (strip ''0 0.1 0.1 0.05 0.05'') = [''0'', ''0.1'', ''0.1'', ''0.05'', ''0.05'']"
  "py_int ''1'' = Some 1" "py_int ''0'' = Some 0"
  "str_int 0 = ''0''" "str_int 1 = ''1''"
  by code_simp+

text \<open>
  Claim C7. The label file with the two lines \<open>1 0.5 0.5 0.2 0.2\<close> and
  \<open>0 0.1 0.1 0.05 0.05\<close>, processed with the table \<open>{0:1, 1:0}\<close> in apply mode, is
  overwritten (the file being one that can be written) with \<open>0 0.5 0.5 0.2 0.2\<close> and \<open>1 0.1 0.1 0.05 0.05\<close>, joined by a
  newline and followed by a newline.
\<close>

theorem swap_scenario:
  "fst (process_label_file [0 \<mapsto> 1, 1 \<mapsto> 0] True
          \<lparr>lbl_path = p, lbl_stem = s,
             lbl_content = Inr ''1 0.5 0.5 0.2 0.2\<newline>0 0.1 0.1 0.05 0.05'',
             lbl_writable = True\<rparr>
          (np, ne, iss))
     = Some ''0 0.5 0.5 0.2 0.2\<newline>1 0.1 0.1 0.05 0.05\<newline>''
   \<and> process_label_files [0 \<mapsto> 1, 1 \<mapsto> 0] True
          [\<lparr>lbl_path = p, lbl_stem = s,
             lbl_content = Inr ''1 0.5 0.5 0.2 0.2\<newline>0 0.1 0.1 0.05 0.05'',
             lbl_writable = True\<rparr>]
          (np, ne, iss)
     = ([\<lparr>lbl_path = p, lbl_stem = s,
           lbl_content = Inr ''0 0.5 0.5 0.2 0.2\<newline>1 0.1 0.1 0.05 0.05\<newline>'',
           lbl_writable = True\<rparr>],
        Inr (np + 1, ne, iss))"
proof -
  let ?f = "\<lparr>lbl_path = p, lbl_stem = s,
             lbl_content = Inr ''1 0.5 0.5 0.2 0.2\<newline>0 0.1 0.1 0.05 0.05'',
             lbl_writable = True\<rparr>"
  have l1: "process_line p [0 \<mapsto> 1, 1 \<mapsto> 0] ''1 0.5 0.5 0.2 0.2'' = Kept ''0 0.5 0.5 0.2 0.2'' True"
    by (simp add: process_line_def swap_scenario_lines)
  have l2: "process_line p [0 \<mapsto> 1, 1 \<mapsto> 0] ''0 0.1 0.1 0.05 0.05'' = Kept ''1 0.1 0.1 0.05 0.05'' True"
    by (simp add: process_line_def swap_scenario_lines)
  have c: "lbl_content ?f = Inr ''1 0.5 0.5 0.2 0.2\<newline>0 0.1 0.1 0.05 0.05''"
    by simp
  have r: "process_label_file [0 \<mapsto> 1, 1 \<mapsto> 0] True ?f (np, ne, iss)
     = (Some ''0 0.5 0.5 0.2 0.2\<newline>1 0.1 0.1 0.05 0.05\<newline>'', (np + 1, ne, iss))"
    by (simp add: process_label_file_Inr [OF c] swap_scenario_lines l1 l2)
  show ?thesis by (simp add: r write_if_changed_def write_text_def)
qed

section \<open>When a label file is written, and what is written\<close>

lemma process_line_issue:
  "(case process_line path remap ln of Rejected msg \<Rightarrow> [msg] | _ \<Rightarrow> []) =
     (case split_ws (strip ln) of
        [] \<Rightarrow> []
      | p0 # ps \<Rightarrow>
          (case py_int p0 of
             None \<Rightarrow> [''Non-integer class id in '' @ path @ '': '' @ [CHR 0x27] @ p0 @ [CHR 0x27]]
           | Some k \<Rightarrow>
               (case remap k of
                  None \<Rightarrow> [''Class id '' @ str_int k @ '' not in remap for '' @ path]
                | Some v \<Rightarrow> [])))"
  by (simp add: process_line_def split: list.splits option.splits)

lemma process_line_kept:
  "(case process_line path remap ln of Kept l ch \<Rightarrow> [l] | _ \<Rightarrow> []) =
     (if line_is_kept remap (split_ws (strip ln))
      then [join '' '' (new_class_token remap (hd (split_ws (strip ln))) # tl (split_ws (strip ln)))]
      else [])"
  by (simp add: process_line_def line_is_kept_def new_class_token_def
           split: list.splits option.splits)

lemma kept_lines_eq:
  "concat (map (\<lambda>ln. case process_line path remap ln of Kept l ch \<Rightarrow> [l] | _ \<Rightarrow> []) lns) =
     map (\<lambda>parts. join '' '' (new_class_token remap (hd parts) # tl parts))
       (filter (line_is_kept remap) (map (\<lambda>ln. split_ws (strip ln)) lns))"
  by (induction lns) (simp_all add: process_line_kept)

lemma str_nat_chars: "str_nat n \<noteq> [] \<and> (\<forall>c\<in>set (str_nat n). \<not> isspace c)"
proof (induction n rule: str_nat.induct)
  case (1 n)
  have d: "\<not> isspace (char_of (48 + k))" if "k < 10" for k :: nat
  proof
    assume "isspace (char_of (48 + k))"
    from isspace_code [OF this] that show False by auto
  qed
  show ?case
  proof (cases "n < 10")
    case True
    then show ?thesis using d [of n] by (simp add: str_nat.simps [of n])
  next
    case False
    with "1.IH" d [of "n mod 10"] show ?thesis by (simp add: str_nat.simps [of n])
  qed
qed

lemma str_int_chars: "str_int i \<noteq> [] \<and> (\<forall>c\<in>set (str_int i). \<not> isspace c)"
proof -
  have "\<not> isspace (CHR ''-'')" by (simp add: isspace_def)
  then show ?thesis using str_nat_chars by (simp add: str_int_def)
qed

lemma new_class_token_chars:
  assumes "p0 \<noteq> []" and "\<forall>c\<in>set p0. \<not> isspace c"
  shows "new_class_token remap p0 \<noteq> [] \<and> (\<forall>c\<in>set (new_class_token remap p0). \<not> isspace c)"
  using assms str_int_chars by (simp add: new_class_token_def split: option.splits)

lemma rewritten_line_tokens:
  assumes "line_is_kept remap (split_ws s)"
  shows "split_ws (join '' '' (new_class_token remap (hd (split_ws s)) # tl (split_ws s)))
           = new_class_token remap (hd (split_ws s)) # tl (split_ws s)"
proof -
  from assms obtain p0 ps where ps: "split_ws s = p0 # ps"
    by (cases "split_ws s") (auto simp: line_is_kept_def)
  have tok: "t \<noteq> [] \<and> (\<forall>c\<in>set t. \<not> isspace c)" if "t \<in> set (p0 # ps)" for t
    using split_ws_tokens [of t s] that ps by simp
  from tok [of p0] have "new_class_token remap p0 \<noteq> [] \<and> (\<forall>c\<in>set (new_class_token remap p0). \<not> isspace c)"
    by (intro new_class_token_chars) simp_all
  with tok have "\<forall>t\<in>set (new_class_token remap p0 # ps). t \<noteq> [] \<and> (\<forall>c\<in>set t. \<not> isspace c)"
    by auto
  from split_ws_join [OF this] ps show ?thesis by simp
qed

lemma process_label_file_written:
  assumes "process_label_file remap do_apply f st = (Some w, st')"
  shows "\<exists>text. lbl_content f = Inr text \<and> do_apply
     \<and> (\<exists>ln\<in>set (splitlines (strip text)). \<exists>l. process_line (lbl_path f) remap ln = Kept l True)
     \<and> w = join [CHR 0x0A]
            (concat (map (\<lambda>ln. case process_line (lbl_path f) remap ln of
                                 Kept l ch \<Rightarrow> [l] | _ \<Rightarrow> [])
                         (splitlines (strip text)))) @ [CHR 0x0A]"
proof (cases "lbl_content f")
  case (Inl e)
  with assms show ?thesis by (cases st) (simp add: process_label_file_Inl)
next
  case (Inr body)
  with assms show ?thesis
    by (cases st) (auto simp: process_label_file_Inr split: if_splits)
qed

text \<open>
  Claim C2, as amended. When a label file is overwritten, the text written is, line by
  line and in the original order, each line of the file whose first token parses as an
  integer with an entry in the table: its first token is replaced by the new index when
  that differs, its other tokens are the original ones, separated by single spaces.
  The lines left out are the lines with no token, with a first token that is not an
  integer, or with a class id the table does not have. Each written line splits back
  into exactly the class token followed by the original geometry tokens.
\<close>

theorem rewrite_changes_only_class_token:
  assumes "process_label_file remap True f st = (Some w, st')"
  shows "\<exists>text. lbl_content f = Inr text
     \<and> w = join [CHR 0x0A]
            (map (\<lambda>parts. join '' '' (new_class_token remap (hd parts) # tl parts))
               (filter (line_is_kept remap)
                  (map (\<lambda>ln. split_ws (strip ln)) (splitlines (strip text))))) @ [CHR 0x0A]
     \<and> (\<forall>parts\<in>set (filter (line_is_kept remap)
                         (map (\<lambda>ln. split_ws (strip ln)) (splitlines (strip text)))).
           split_ws (join '' '' (new_class_token remap (hd parts) # tl parts))
             = new_class_token remap (hd parts) # tl parts)"
proof -
  from process_label_file_written [OF assms] obtain body where
    t: "lbl_content f = Inr body"
    and w: "w = join [CHR 0x0A]
            (concat (map (\<lambda>ln. case process_line (lbl_path f) remap ln of
                                 Kept l ch \<Rightarrow> [l] | _ \<Rightarrow> [])
                         (splitlines (strip body)))) @ [CHR 0x0A]"
    by blast
  have r: "\<forall>parts\<in>set (filter (line_is_kept remap)
                         (map (\<lambda>ln. split_ws (strip ln)) (splitlines (strip body)))).
           split_ws (join '' '' (new_class_token remap (hd parts) # tl parts))
             = new_class_token remap (hd parts) # tl parts"
    by (auto intro: rewritten_line_tokens)
  from t w r show ?thesis unfolding kept_lines_eq by blast
qed

lemma mixed_file_lines:
  "strip ''x 1 2\<newline>\<newline>7 3\<newline>1 0.5'' = ''x 1 2\<newline>\<newline>7 3\<newline>1 0.5''"
  "splitlines ''x 1 2\<newline>\<newline>7 3\<newline>1 0.5'' = [''x 1 2'', [], ''7 3'', ''1 0.5'']"
  "split_ws (strip ''x 1 2'') = [''x'', ''1'', ''2'']"
  "split_ws (strip []) = []"
  "split_ws (strip ''7 3'') = [''7'', ''3'']"
  "split_ws (strip ''1 0.5'') = [''1'', ''0.5'']"
  "py_int ''x'' = None" "py_int ''7'' = Some 7" "py_int ''1'' = Some 1"
  "str_int 0 = ''0''" "str_int 7 = ''7''"
  by code_simp+

theorem rewrite_changes_only_class_token_witness:
  "process_label_file [0 \<mapsto> 1, 1 \<mapsto> 0] True
      \<lparr>lbl_path = ''a.txt'', lbl_stem = ''a'', lbl_content = Inr ''x 1 2\<newline>\<newline>7 3\<newline>1 0.5'', lbl_writable = True\<rparr>
      (0, 0, [])
    = (Some ''0 0.5\<newline>'',
       (1, 0, [''Non-integer class id in a.txt: '' @ [CHR 0x27] @ ''x'' @ [CHR 0x27],
               ''Class id 7 not in remap for a.txt'']))
   \<and> (\<exists>text. Inr ''x 1 2\<newline>\<newline>7 3\<newline>1 0.5'' = (Inr text :: string + string)
        \<and> ''0 0.5\<newline>'' = join [CHR 0x0A]
            (map (\<lambda>parts. join '' '' (new_class_token [0 \<mapsto> 1, 1 \<mapsto> 0] (hd parts) # tl parts))
               (filter (line_is_kept [0 \<mapsto> 1, 1 \<mapsto> 0])
                  (map (\<lambda>ln. split_ws (strip ln)) (splitlines (strip text))))) @ [CHR 0x0A])"
proof -
  let ?f = "\<lparr>lbl_path = ''a.txt'', lbl_stem = ''a'', lbl_content = Inr ''x 1 2\<newline>\<newline>7 3\<newline>1 0.5'', lbl_writable = True\<rparr>"
  have c: "lbl_content ?f = Inr ''x 1 2\<newline>\<newline>7 3\<newline>1 0.5''" by simp
  have l: "process_line ''a.txt'' [0 \<mapsto> 1, 1 \<mapsto> 0] ''x 1 2''
             = Rejected (''Non-integer class id in a.txt: '' @ [CHR 0x27] @ ''x'' @ [CHR 0x27])"
    "process_line ''a.txt'' [0 \<mapsto> 1, 1 \<mapsto> 0] [] = Skipped"
    "process_line ''a.txt'' [0 \<mapsto> 1, 1 \<mapsto> 0] ''7 3'' = Rejected ''Class id 7 not in remap for a.txt''"
    "process_line ''a.txt'' [0 \<mapsto> 1, 1 \<mapsto> 0] ''1 0.5'' = Kept ''0 0.5'' True"
    by (simp_all add: process_line_def mixed_file_lines)
  have r: "process_label_file [0 \<mapsto> 1, 1 \<mapsto> 0] True ?f (0, 0, [])
    = (Some ''0 0.5\<newline>'',
       (1, 0, [''Non-integer class id in a.txt: '' @ [CHR 0x27] @ ''x'' @ [CHR 0x27],
               ''Class id 7 not in remap for a.txt'']))"
    by (simp add: process_label_file_Inr [OF c] mixed_file_lines l)
  from rewrite_changes_only_class_token [OF r] r show ?thesis by simp
qed

text \<open>
  Claim C2 as stated fails: in this file the line \<open>x 1 2\<close> has three tokens, and it is
  removed from the text that is written (so is the line \<open>7 3\<close>, whose class id the
  table does not have).
\<close>

theorem line_with_tokens_removed_counterexample:
  "fst (process_label_file [0 \<mapsto> 1, 1 \<mapsto> 0] True
      \<lparr>lbl_path = ''a.txt'', lbl_stem = ''a'', lbl_content = Inr ''x 1 2\<newline>\<newline>7 3\<newline>1 0.5'', lbl_writable = True\<rparr>
      (0, 0, [])) = Some ''0 0.5\<newline>''
   \<and> splitlines (strip ''x 1 2\<newline>\<newline>7 3\<newline>1 0.5'') = [''x 1 2'', [], ''7 3'', ''1 0.5'']
   \<and> split_ws (strip ''x 1 2'') = [''x'', ''1'', ''2'']"
  by code_simp

text \<open>
  Claim C10, as amended. A label file is given to \<open>write_text\<close> only in apply mode and
  only when some line has a class id that the table sends to a different integer. When
  no line has one, the file is left as it is on disk, whatever token-less, unparsable
  or unmapped lines it holds. The issues recorded for the file are one per line whose
  first token is not an integer or whose class id is not in the table, in line order;
  a line with no token is dropped without an issue.
\<close>

theorem label_file_written_only_when_class_id_changes:
  assumes "lbl_content f = Inr text"
  shows "(\<forall>w. fst (process_label_file remap do_apply f (np, ne, iss)) = Some w \<longrightarrow>
            do_apply \<and> (\<exists>ln\<in>set (splitlines (strip text)). \<exists>p0 ps k v.
               split_ws (strip ln) = p0 # ps \<and> py_int p0 = Some k \<and> remap k = Some v \<and> v \<noteq> k))
    \<and> ((\<forall>ln\<in>set (splitlines (strip text)). \<forall>p0 ps k v.
           split_ws (strip ln) = p0 # ps \<longrightarrow> py_int p0 = Some k \<longrightarrow> remap k = Some v \<longrightarrow> v = k)
         \<longrightarrow> write_if_changed f (fst (process_label_file remap do_apply f (np, ne, iss))) = Inr f)
    \<and> snd (snd (snd (process_label_file remap do_apply f (np, ne, iss)))) =
        iss @ concat (map (\<lambda>ln. case split_ws (strip ln) of
                [] \<Rightarrow> []
              | p0 # ps \<Rightarrow>
                  (case py_int p0 of
                     None \<Rightarrow> [''Non-integer class id in '' @ lbl_path f @ '': ''
                               @ [CHR 0x27] @ p0 @ [CHR 0x27]]
                   | Some k \<Rightarrow>
                       (case remap k of
                          None \<Rightarrow> [''Class id '' @ str_int k @ '' not in remap for '' @ lbl_path f]
                        | Some v \<Rightarrow> [])))
            (splitlines (strip text)))"
proof -
  let ?r = "process_label_file remap do_apply f (np, ne, iss)"
  have a: "do_apply \<and> (\<exists>ln\<in>set (splitlines (strip text)). \<exists>p0 ps k v.
               split_ws (strip ln) = p0 # ps \<and> py_int p0 = Some k \<and> remap k = Some v \<and> v \<noteq> k)"
    if "fst ?r = Some w" for w
  proof -
    have "?r = (Some w, snd ?r)" using that by (metis prod.collapse)
    from process_label_file_written [OF this] assms
    have "do_apply" and "\<exists>ln\<in>set (splitlines (strip text)). \<exists>l.
            process_line (lbl_path f) remap ln = Kept l True"
      by auto
    then show ?thesis unfolding process_line_Kept_True by blast
  qed
  have b: "write_if_changed f (fst ?r) = Inr f"
    if "\<forall>ln\<in>set (splitlines (strip text)). \<forall>p0 ps k v.
           split_ws (strip ln) = p0 # ps \<longrightarrow> py_int p0 = Some k \<longrightarrow> remap k = Some v \<longrightarrow> v = k"
  proof (cases "fst ?r")
    case None
    then show ?thesis by (simp add: write_if_changed_def)
  next
    case (Some w)
    from a [OF Some] that show ?thesis by blast
  qed
  have c: "snd (snd (snd ?r)) =
        iss @ concat (map (\<lambda>ln. case process_line (lbl_path f) remap ln of
                                   Rejected msg \<Rightarrow> [msg] | _ \<Rightarrow> [])
                          (splitlines (strip text)))"
    using assms by (simp add: process_label_file_Inr splitlines_def)
  from a b c show ?thesis unfolding process_line_issue by blast
qed

lemma unchanged_file_lines:
  "strip ''x 1\<newline>\<newline>7 2\<newline>0 3'' = ''x 1\<newline>\<newline>7 2\<newline>0 3''"
  "splitlines ''x 1\<newline>\<newline>7 2\<newline>0 3'' = [''x 1'', [], ''7 2'', ''0 3'']"
  "split_ws (strip ''x 1'') = [''x'', ''1'']"
  "split_ws (strip []) = []"
  "split_ws (strip ''7 2'') = [''7'', ''2'']"
  "split_ws (strip ''0 3'') = [''0'', ''3'']"
  "py_int ''x'' = None" "py_int ''7'' = Some 7" "py_int ''0'' = Some 0"
  "str_int 7 = ''7''"
  by code_simp+

theorem label_file_written_only_when_class_id_changes_witness:
  "lbl_content \<lparr>lbl_path = ''a.txt'', lbl_stem = ''a'', lbl_content = Inr ''x 1\<newline>\<newline>7 2\<newline>0 3'', lbl_writable = True\<rparr>
     = Inr ''x 1\<newline>\<newline>7 2\<newline>0 3''
   \<and> write_if_changed \<lparr>lbl_path = ''a.txt'', lbl_stem = ''a'', lbl_content = Inr ''x 1\<newline>\<newline>7 2\<newline>0 3'', lbl_writable = True\<rparr>
        (fst (process_label_file [0 \<mapsto> 0] True
               \<lparr>lbl_path = ''a.txt'', lbl_stem = ''a'', lbl_content = Inr ''x 1\<newline>\<newline>7 2\<newline>0 3'', lbl_writable = True\<rparr>
               (0, 0, [])))
       = Inr \<lparr>lbl_path = ''a.txt'', lbl_stem = ''a'', lbl_content = Inr ''x 1\<newline>\<newline>7 2\<newline>0 3'', lbl_writable = True\<rparr>
   \<and> snd (snd (snd (process_label_file [0 \<mapsto> 0] True
               \<lparr>lbl_path = ''a.txt'', lbl_stem = ''a'', lbl_content = Inr ''x 1\<newline>\<newline>7 2\<newline>0 3'', lbl_writable = True\<rparr>
               (0, 0, []))))
       = [''Non-integer class id in a.txt: '' @ [CHR 0x27] @ ''x'' @ [CHR 0x27],
          ''Class id 7 not in remap for a.txt'']"
proof -
  let ?f = "\<lparr>lbl_path = ''a.txt'', lbl_stem = ''a'', lbl_content = Inr ''x 1\<newline>\<newline>7 2\<newline>0 3'', lbl_writable = True\<rparr>"
  have c: "lbl_content ?f = Inr ''x 1\<newline>\<newline>7 2\<newline>0 3''" by simp
  note t = label_file_written_only_when_class_id_changes [OF c, of "[0 \<mapsto> 0]" True 0 0 "[]"]
  have p: "\<forall>ln\<in>set (splitlines (strip ''x 1\<newline>\<newline>7 2\<newline>0 3'')). \<forall>p0 ps k v.
           split_ws (strip ln) = p0 # ps \<longrightarrow> py_int p0 = Some k \<longrightarrow> [0 \<mapsto> (0::int)] k = Some v \<longrightarrow> v = k"
    by (auto simp: unchanged_file_lines split: if_splits)
  from t p have w: "write_if_changed ?f (fst (process_label_file [0 \<mapsto> 0] True ?f (0, 0, []))) = Inr ?f"
    by blast
  from t have i: "snd (snd (snd (process_label_file [0 \<mapsto> 0] True ?f (0, 0, []))))
       = [''Non-integer class id in a.txt: '' @ [CHR 0x27] @ ''x'' @ [CHR 0x27],
          ''Class id 7 not in remap for a.txt'']"
    by (simp add: unchanged_file_lines)
  from c w i show ?thesis by blast
qed

text \<open>
  Claim C10 as stated says that token-less lines are recorded as issues. They are not:
  the second line of this file has no token, and the file yields no issue at all.
\<close>

theorem token_less_line_no_issue_counterexample:
  "process_label_file [0 \<mapsto> 0] True
      \<lparr>lbl_path = ''a.txt'', lbl_stem = ''a'', lbl_content = Inr ''0 1\<newline>\<newline>0 2'', lbl_writable = True\<rparr> (0, 0, [])
     = (None, (1, 0, []))
   \<and> splitlines (strip ''0 1\<newline>\<newline>0 2'') = [''0 1'', [], ''0 2'']
   \<and> split_ws (strip []) = []"
  by code_simp

section \<open>Loops that write nothing\<close>

lemma process_label_file_count:
  "fst (snd (process_label_file remap do_apply f (np, ne, iss))) = np + 1"
  by (cases "lbl_content f")
     (simp_all add: process_label_file_Inl process_label_file_Inr)

lemma process_label_files_no_write:
  assumes "\<And>f st. f \<in> set fs \<Longrightarrow> fst (process_label_file remap do_apply f st) = None"
  shows "\<exists>ne' iss'. process_label_files remap do_apply fs (np, ne, iss)
           = (fs, Inr (np + length fs, ne', iss'))"
  using assms
proof (induction fs arbitrary: np ne iss)
  case Nil
  then show ?case by simp
next
  case (Cons f fs)
  obtain w np1 ne1 iss1 where
    r: "process_label_file remap do_apply f (np, ne, iss) = (w, (np1, ne1, iss1))"
    by (metis prod.collapse)
  from Cons.prems [of f "(np, ne, iss)"] r have w: "w = None" by simp
  from process_label_file_count [of remap do_apply f np ne iss] r have n: "np1 = np + 1" by simp
  from Cons.IH [of np1 ne1 iss1] Cons.prems obtain ne' iss' where
    "process_label_files remap do_apply fs (np1, ne1, iss1) = (fs, Inr (np1 + length fs, ne', iss'))"
    by auto
  with r w n show ?case by (simp add: write_if_changed_def)
qed

lemma process_split_no_write:
  assumes "\<And>f st. f \<in> set (iter_label_files (labels sd))
             \<Longrightarrow> fst (process_label_file remap do_apply f st) = None"
  shows "\<exists>rest. process_split sd remap do_apply
           = (Inr (length (iter_label_files (labels sd)), rest), sd)"
proof -
  have l: "map_option (\<lambda>_. iter_label_files (labels sd)) (labels sd) = labels sd"
    by (cases "labels sd") (simp_all add: iter_label_files_def)
  obtain issues mi ml where
    s: "scan_split (images_dir sd) (labels_dir sd)
          (case images sd of Some stems \<Rightarrow> set stems | None \<Rightarrow> {})
          (set (map lbl_stem (iter_label_files (labels sd)))) = (issues, mi, ml)"
    by (metis prod.collapse)
  from process_label_files_no_write [of "iter_label_files (labels sd)" remap do_apply 0 0 issues] assms
  obtain ne' iss' where
    "process_label_files remap do_apply (iter_label_files (labels sd)) (0, 0, issues)
       = (iter_label_files (labels sd), Inr (length (iter_label_files (labels sd)), ne', iss'))"
    by auto
  with s l show ?thesis by (simp add: process_split_def Let_def)
qed

section \<open>Dry run\<close>

lemma process_split_dry_run:
  "\<exists>rest. process_split sd remap False = (Inr (length (iter_label_files (labels sd)), rest), sd)"
  by (rule process_split_no_write) (rule process_label_file_dry_run)

lemma run_splits_no_write:
  assumes "build_names_and_remap names = (new_names, remap)"
    and "\<And>f st. fst (process_label_file remap False f st) = None"
  shows "\<exists>r. run_splits (a\<lparr>args_apply := False\<rparr>) cfg names ds = (Completed r, ds)
           \<and> num_label_files_processed r =
                length (iter_label_files (labels (train ds)))
              + length (iter_label_files (labels (valid ds)))
              + length (iter_label_files (labels (test ds)))"
proof -
  obtain r1 where 1: "process_split (train ds) remap False
      = (Inr (length (iter_label_files (labels (train ds))), r1), train ds)"
    using process_split_dry_run by blast
  obtain r2 where 2: "process_split (valid ds) remap False
      = (Inr (length (iter_label_files (labels (valid ds))), r2), valid ds)"
    using process_split_dry_run by blast
  obtain r3 where 3: "process_split (test ds) remap False
      = (Inr (length (iter_label_files (labels (test ds))), r3), test ds)"
    using process_split_dry_run by blast
  show ?thesis
    using assms(1) by (simp add: run_splits_def 1 2 3 Let_def split: prod.splits)
qed

lemma run_splits_dry_run:
  "\<exists>r. run_splits (a\<lparr>args_apply := False\<rparr>) cfg names ds = (Completed r, ds)
           \<and> num_label_files_processed r =
                length (iter_label_files (labels (train ds)))
              + length (iter_label_files (labels (valid ds)))
              + length (iter_label_files (labels (test ds)))"
proof -
  obtain new_names remap where b: "build_names_and_remap names = (new_names, remap)"
    by (metis prod.collapse)
  show ?thesis
    by (rule run_splits_no_write [OF b]) (rule process_label_file_dry_run)
qed

text \<open>
  Claim C5. In a dry run (the apply flag absent) the dataset directory after the run is
  the dataset directory before it: no label file is rewritten, no backup directory is
  created and the manifest is unchanged, whatever issues are found; and no label file
  is ever given to \<open>write_text\<close>.
\<close>

theorem dry_run_modifies_nothing:
  "snd (main (a\<lparr>args_apply := False\<rparr>) ds) = ds
   \<and> fst (process_label_file remap False f st) = None"
proof -
  have "snd (run_splits (a\<lparr>args_apply := False\<rparr>) cfg names ds) = ds" for cfg names
    using run_splits_dry_run [of a cfg names ds] by auto
  then have "snd (main (a\<lparr>args_apply := False\<rparr>) ds) = ds"
    by (simp add: main_def split: option.splits yaml_file.splits sum.splits)
  then show ?thesis by (simp add: process_label_file_dry_run)
qed

section \<open>Read failures, and the failures that are not caught\<close>




lemma backup_dataset_frame:
  assumes "backup_dataset ds name = (e, ds1)"
  shows "train ds1 = train ds \<and> valid ds1 = valid ds \<and> test ds1 = test ds
         \<and> data_yaml ds1 = data_yaml ds \<and> data_yaml_path ds1 = data_yaml_path ds"
  using assms by (auto simp: backup_dataset_def split: option.splits prod.splits)

lemma backup_dataset_exists:
  assumes "backups ds name \<noteq> None"
  shows "backup_dataset ds name = (None, ds)"
  using assms by (auto simp: backup_dataset_def)

lemma backup_dataset_None:
  assumes "backup_dataset ds name = (None, ds1)"
  shows "backups ds1 name \<noteq> None"
  using assms by (auto simp: backup_dataset_def split: option.splits prod.splits)




lemma main_valid_manifest:
  assumes "data_yaml ds = Some (Parsed cfg)" and "cfg_get_names cfg = Inr v"
    and "py_list v = Inr ys" and "ys \<noteq> []" and "as_strings ys = Inr names"
  shows "main a ds = run_splits a cfg names ds"
  using assms by (simp add: main_def)







section \<open>A second run of the tool\<close>

lemma dict_get_set_same: "dict_get (dict_set kvs k v) k d = v"
  by (induction kvs k v rule: dict_set.induct) auto

lemma dict_get_set_other: "k' \<noteq> k \<Longrightarrow> dict_get (dict_set kvs k v) k' d = dict_get kvs k' d"
  by (induction kvs k v rule: dict_set.induct) auto

lemma dict_set_key: "k \<in> fst ` set (dict_set kvs k v)"
  by (induction kvs k v rule: dict_set.induct) auto

lemma dict_set_keeps_key: "k' \<in> fst ` set kvs \<Longrightarrow> k' \<in> fst ` set (dict_set kvs k v)"
  by (induction kvs k v rule: dict_set.induct) auto

lemma dict_set_same_value:
  "k \<in> fst ` set kvs \<Longrightarrow> dict_get kvs k d = v \<Longrightarrow> dict_set kvs k v = kvs"
  by (induction kvs k v rule: dict_set.induct) (auto split: if_splits)

lemma update_manifest_twice:
  "update_manifest (update_manifest (YDict kvs) new_names) new_names
     = update_manifest (YDict kvs) new_names"
proof -
  let ?n = "YStr ''names''" and ?c = "YStr ''nc''"
  let ?x = "YList (map YStr new_names)" and ?y = "YInt (int (length new_names))"
  let ?K = "dict_set (dict_set kvs ?n ?x) ?c ?y"
  have ne: "?n \<noteq> ?c" by simp
  have "?n \<in> fst ` set ?K" by (intro dict_set_keeps_key dict_set_key)
  moreover have "dict_get ?K ?n (YList []) = ?x"
    using ne by (simp add: dict_get_set_other dict_get_set_same)
  ultimately have 1: "dict_set ?K ?n ?x = ?K" by (rule dict_set_same_value)
  have "?c \<in> fst ` set ?K" by (rule dict_set_key)
  moreover have "dict_get ?K ?c (YList []) = ?y" by (rule dict_get_set_same)
  ultimately have 2: "dict_set ?K ?c ?y = ?K" by (rule dict_set_same_value)
  show ?thesis by (simp add: update_manifest_def 1 2)
qed

lemma update_manifest_names:
  "cfg_get_names (update_manifest (YDict kvs) new_names) = Inr (YList (map YStr new_names))"
  by (simp add: update_manifest_def dict_get_set_other dict_get_set_same)

lemma as_strings_map_YStr: "as_strings (map YStr xs) = Inr xs"
  by (induction xs) simp_all

lemma as_strings_length: "as_strings ys = Inr names \<Longrightarrow> length names = length ys"
proof (induction ys arbitrary: names rule: as_strings.induct)
  case 1
  then show ?case by simp
next
  case (2 s xs)
  then show ?case by (auto split: sum.splits)
qed simp_all

lemma cfg_get_names_dict: "cfg_get_names cfg = Inr v \<Longrightarrow> \<exists>kvs. cfg = YDict kvs"
  by (cases cfg) simp_all

lemma main_Completed:
  assumes "main a ds = (Completed r, ds')"
  shows "\<exists>kvs v ys names. data_yaml ds = Some (Parsed (YDict kvs))
           \<and> cfg_get_names (YDict kvs) = Inr v \<and> py_list v = Inr ys \<and> ys \<noteq> []
           \<and> as_strings ys = Inr names
           \<and> run_splits a (YDict kvs) names ds = (Completed r, ds')"
proof -
  from assms obtain cfg where c: "data_yaml ds = Some (Parsed cfg)"
    by (auto simp: main_def split: option.splits yaml_file.splits)
  from assms c obtain v where v: "cfg_get_names cfg = Inr v"
    by (auto simp: main_def split: sum.splits)
  from assms c v obtain ys where ys: "py_list v = Inr ys"
    by (auto simp: main_def split: sum.splits)
  from assms c v ys have ne: "ys \<noteq> []"
    by (auto simp: main_def split: if_splits)
  from assms c v ys ne obtain names where n: "as_strings ys = Inr names"
    by (auto simp: main_def split: sum.splits)
  from cfg_get_names_dict [OF v] obtain kvs where k: "cfg = YDict kvs" by blast
  have "main a ds = run_splits a cfg names ds"
    by (rule main_valid_manifest [OF c v ys ne n])
  with assms have "run_splits a (YDict kvs) names ds = (Completed r, ds')"
    using k by simp
  with c v ys ne n k show ?thesis by blast
qed

lemma run_splits_writes_nothing:
  assumes b: "build_names_and_remap names = (new_names, remap)"
    and nw: "\<And>f st. fst (process_label_file remap (args_apply a) f st) = None"
    and k: "(if args_apply a then backup_dataset ds (args_backup_dirname a) else (None, ds))
              = (e, ds1)"
  shows "e = None \<Longrightarrow>
           \<exists>r. run_splits a cfg names ds
                  = (Completed r,
                     if args_apply a
                     then ds1\<lparr>data_yaml := Some (Parsed (update_manifest cfg new_names))\<rparr>
                     else ds1)
               \<and> report_new_names r = new_names \<and> report_remap r = remap"
    and "e = Some exc \<Longrightarrow> run_splits a cfg names ds = (Uncaught exc, ds1)"
proof -
  obtain r1 where 1: "process_split (train ds1) remap (args_apply a)
      = (Inr (length (iter_label_files (labels (train ds1))), r1), train ds1)"
    using process_split_no_write [of "train ds1" remap "args_apply a"] nw by blast
  obtain r2 where 2: "process_split (valid ds1) remap (args_apply a)
      = (Inr (length (iter_label_files (labels (valid ds1))), r2), valid ds1)"
    using process_split_no_write [of "valid ds1" remap "args_apply a"] nw by blast
  obtain r3 where 3: "process_split (test ds1) remap (args_apply a)
      = (Inr (length (iter_label_files (labels (test ds1))), r3), test ds1)"
    using process_split_no_write [of "test ds1" remap "args_apply a"] nw by blast
  show "\<exists>r. run_splits a cfg names ds
                  = (Completed r,
                     if args_apply a
                     then ds1\<lparr>data_yaml := Some (Parsed (update_manifest cfg new_names))\<rparr>
                     else ds1)
               \<and> report_new_names r = new_names \<and> report_remap r = remap" if "e = None"
    using that k by (simp add: run_splits_def b 1 2 3 Let_def split: prod.splits)
  show "run_splits a cfg names ds = (Uncaught exc, ds1)" if "e = Some exc"
    using that k by (simp add: run_splits_def b)
qed

lemma run_splits_apply_Completed:
  assumes "run_splits a cfg names ds = (Completed r, ds')" and "args_apply a"
    and "build_names_and_remap names = (new_names, remap)"
  shows "data_yaml ds' = Some (Parsed (update_manifest cfg new_names))
    \<and> backups ds' (args_backup_dirname a) \<noteq> None
    \<and> report_new_names r = new_names \<and> report_remap r = remap"
proof -
  obtain e ds1 where k: "backup_dataset ds (args_backup_dirname a) = (e, ds1)"
    by (metis prod.collapse)
  have "e = None"
    using assms k by (cases e) (simp_all add: run_splits_def)
  with k have bk: "backups ds1 (args_backup_dirname a) \<noteq> None"
    using backup_dataset_None by blast
  show ?thesis
    using assms k \<open>e = None\<close> bk
    by (auto simp: run_splits_def Let_def split: prod.splits sum.splits)
qed

text \<open>
  Claim C1, as amended. After an apply run that completed, a second run of the tool
  reads the canonical taxonomy that the first run wrote to the manifest and rebuilds
  the table from it. That table sends every new index (every value of the first
  table) to itself. Run again with the same arguments, the tool completes and leaves
  the whole dataset directory as the first run left it; run again with any arguments,
  it leaves every label file and the manifest as they are.
\<close>

theorem second_run_changes_no_file:
  assumes "args_apply a" and "main a ds = (Completed r, ds')"
  shows "(\<exists>r2. main a ds' = (Completed r2, ds')
            \<and> report_new_names r2 = report_new_names r
            \<and> (\<forall>i v. report_remap r i = Some v \<longrightarrow> report_remap r2 v = Some v))
    \<and> train (snd (main a2 ds')) = train ds' \<and> valid (snd (main a2 ds')) = valid ds'
    \<and> test (snd (main a2 ds')) = test ds' \<and> data_yaml (snd (main a2 ds')) = data_yaml ds'"
proof -
  from main_Completed [OF assms(2)] obtain kvs v ys names where
    h: "data_yaml ds = Some (Parsed (YDict kvs))" "cfg_get_names (YDict kvs) = Inr v"
      "py_list v = Inr ys" "ys \<noteq> []" "as_strings ys = Inr names"
    and run: "run_splits a (YDict kvs) names ds = (Completed r, ds')"
    by blast
  obtain new_names remap where b1: "build_names_and_remap names = (new_names, remap)"
    by (metis prod.collapse)
  obtain new_names' remap' where b2': "build_names_and_remap new_names = (new_names', remap')"
    by (metis prod.collapse)
  note id = rebuilt_table_identity [OF b1 b2']
  have b2: "build_names_and_remap new_names = (new_names, remap')" using b2' id(1) by simp
  let ?cfg = "update_manifest (YDict kvs) new_names"
  from run_splits_apply_Completed [OF run assms(1) b1]
  have d': "data_yaml ds' = Some (Parsed ?cfg)"
    and bk: "backups ds' (args_backup_dirname a) \<noteq> None"
    and rn: "report_new_names r = new_names" and rr: "report_remap r = remap"
    by simp_all
  have "names \<noteq> []" using as_strings_length [OF h(5)] h(4) by auto
  then have nn: "new_names \<noteq> []"
    using build_names_and_remap_spec(1) [OF b1] by simp
  have pl: "py_list (YList (map YStr new_names)) = Inr (map YStr new_names)" by simp
  have ne': "map YStr new_names \<noteq> []" using nn by simp
  have m: "main x ds' = run_splits x ?cfg new_names ds'" for x
    by (rule main_valid_manifest [OF d' update_manifest_names pl ne' as_strings_map_YStr])
  have nw: "fst (process_label_file remap' ap f st) = None" for ap f st
    using id(3) by (rule process_label_file_identity)
  have same: "ds'\<lparr>data_yaml := Some (Parsed (update_manifest ?cfg new_names))\<rparr> = ds'"
    using d' by (simp add: update_manifest_twice)
  have first: "\<exists>r2. main a ds' = (Completed r2, ds')
            \<and> report_new_names r2 = report_new_names r
            \<and> (\<forall>i v. report_remap r i = Some v \<longrightarrow> report_remap r2 v = Some v)"
  proof -
    have k: "(if args_apply a then backup_dataset ds' (args_backup_dirname a) else (None, ds'))
               = (None, ds')"
      using backup_dataset_exists [OF bk] by simp
    from run_splits_writes_nothing(1) [OF b2 nw k refl, of ?cfg] assms(1) same
    obtain r2 where r2: "run_splits a ?cfg new_names ds' = (Completed r2, ds')"
      "report_new_names r2 = new_names" "report_remap r2 = remap'"
      by auto
    have "remap' v = Some v" if "remap i = Some v" for i v
      using remap_value_in_range [OF b1 that] id(2) by auto
    with r2 rn rr show ?thesis unfolding m by auto
  qed
  have second: "train (snd (main a2 ds')) = train ds' \<and> valid (snd (main a2 ds')) = valid ds'
    \<and> test (snd (main a2 ds')) = test ds' \<and> data_yaml (snd (main a2 ds')) = data_yaml ds'"
  proof -
    obtain e ds1 where
      k: "(if args_apply a2 then backup_dataset ds' (args_backup_dirname a2) else (None, ds'))
            = (e, ds1)"
      by (metis prod.collapse)
    have fr: "train ds1 = train ds' \<and> valid ds1 = valid ds' \<and> test ds1 = test ds'
         \<and> data_yaml ds1 = data_yaml ds'"
      using k backup_dataset_frame [of ds' "args_backup_dirname a2" e ds1]
      by (cases "args_apply a2") auto
    show ?thesis
    proof (cases e)
      case None
      from run_splits_writes_nothing(1) [OF b2 nw k None, of ?cfg]
      obtain r2 where "run_splits a2 ?cfg new_names ds'
          = (Completed r2,
             if args_apply a2
             then ds1\<lparr>data_yaml := Some (Parsed (update_manifest ?cfg new_names))\<rparr>
             else ds1)"
        by blast
      with fr d' show ?thesis unfolding m by (simp add: update_manifest_twice)
    next
      case (Some exc)
      from run_splits_writes_nothing(2) [OF b2 nw k Some, of ?cfg] fr
      show ?thesis unfolding m by simp
    qed
  qed
  from first second show ?thesis by blast
qed

theorem second_run_changes_no_file_witness:
  "args_apply \<lparr>args_apply = True, args_backup_dirname = ''_backup_before_normalize''\<rparr>
   \<and> exit_status (fst (main \<lparr>args_apply = True, args_backup_dirname = ''_backup_before_normalize''\<rparr>
      \<lparr>data_yaml_path = ''data.yaml'',
       data_yaml = Some (Parsed (YDict [(YStr ''names'', YList [YStr ''a'', YStr ''a'', YStr ''b'']),
                                       (YStr ''nc'', YInt 3)])),
       train = \<lparr>images_dir = ''train/images'', labels_dir = ''train/labels'', images = None,
                labels = Some [\<lparr>lbl_path = ''x.txt'', lbl_stem = ''x'',
                                lbl_content = Inr ''2 0.5'', lbl_writable = True\<rparr>]\<rparr>,
       valid = \<lparr>images_dir = ''valid/images'', labels_dir = ''valid/labels'', images = None,
                labels = None\<rparr>,
       test = \<lparr>images_dir = ''test/images'', labels_dir = ''test/labels'', images = None,
               labels = None\<rparr>,
       backups = Map.empty\<rparr>)) = 0
   \<and> map lbl_content (iter_label_files (labels (train (snd (main \<lparr>args_apply = True, args_backup_dirname = ''_backup_before_normalize''\<rparr>
      \<lparr>data_yaml_path = ''data.yaml'',
       data_yaml = Some (Parsed (YDict [(YStr ''names'', YList [YStr ''a'', YStr ''a'', YStr ''b'']),
                                       (YStr ''nc'', YInt 3)])),
       train = \<lparr>images_dir = ''train/images'', labels_dir = ''train/labels'', images = None,
                labels = Some [\<lparr>lbl_path = ''x.txt'', lbl_stem = ''x'',
                                lbl_content = Inr ''2 0.5'', lbl_writable = True\<rparr>]\<rparr>,
       valid = \<lparr>images_dir = ''valid/images'', labels_dir = ''valid/labels'', images = None,
                labels = None\<rparr>,
       test = \<lparr>images_dir = ''test/images'', labels_dir = ''test/labels'', images = None,
               labels = None\<rparr>,
       backups = Map.empty\<rparr>)))))
       = [Inr ''1 0.5\<newline>'']
   \<and> exit_status (fst (main \<lparr>args_apply = True, args_backup_dirname = ''_backup_before_normalize''\<rparr>
        (snd (main \<lparr>args_apply = True, args_backup_dirname = ''_backup_before_normalize''\<rparr>
      \<lparr>data_yaml_path = ''data.yaml'',
       data_yaml = Some (Parsed (YDict [(YStr ''names'', YList [YStr ''a'', YStr ''a'', YStr ''b'']),
                                       (YStr ''nc'', YInt 3)])),
       train = \<lparr>images_dir = ''train/images'', labels_dir = ''train/labels'', images = None,
                labels = Some [\<lparr>lbl_path = ''x.txt'', lbl_stem = ''x'',
                                lbl_content = Inr ''2 0.5'', lbl_writable = True\<rparr>]\<rparr>,
       valid = \<lparr>images_dir = ''valid/images'', labels_dir = ''valid/labels'', images = None,
                labels = None\<rparr>,
       test = \<lparr>images_dir = ''test/images'', labels_dir = ''test/labels'', images = None,
               labels = None\<rparr>,
       backups = Map.empty\<rparr>)))) = 0
   \<and> snd (main \<lparr>args_apply = True, args_backup_dirname = ''_backup_before_normalize''\<rparr>
        (snd (main \<lparr>args_apply = True, args_backup_dirname = ''_backup_before_normalize''\<rparr>
      \<lparr>data_yaml_path = ''data.yaml'',
       data_yaml = Some (Parsed (YDict [(YStr ''names'', YList [YStr ''a'', YStr ''a'', YStr ''b'']),
                                       (YStr ''nc'', YInt 3)])),
       train = \<lparr>images_dir = ''train/images'', labels_dir = ''train/labels'', images = None,
                labels = Some [\<lparr>lbl_path = ''x.txt'', lbl_stem = ''x'',
                                lbl_content = Inr ''2 0.5'', lbl_writable = True\<rparr>]\<rparr>,
       valid = \<lparr>images_dir = ''valid/images'', labels_dir = ''valid/labels'', images = None,
                labels = None\<rparr>,
       test = \<lparr>images_dir = ''test/images'', labels_dir = ''test/labels'', images = None,
               labels = None\<rparr>,
       backups = Map.empty\<rparr>)))
       = snd (main \<lparr>args_apply = True, args_backup_dirname = ''_backup_before_normalize''\<rparr>
      \<lparr>data_yaml_path = ''data.yaml'',
       data_yaml = Some (Parsed (YDict [(YStr ''names'', YList [YStr ''a'', YStr ''a'', YStr ''b'']),
                                       (YStr ''nc'', YInt 3)])),
       train = \<lparr>images_dir = ''train/images'', labels_dir = ''train/labels'', images = None,
                labels = Some [\<lparr>lbl_path = ''x.txt'', lbl_stem = ''x'',
                                lbl_content = Inr ''2 0.5'', lbl_writable = True\<rparr>]\<rparr>,
       valid = \<lparr>images_dir = ''valid/images'', labels_dir = ''valid/labels'', images = None,
                labels = None\<rparr>,
       test = \<lparr>images_dir = ''test/images'', labels_dir = ''test/labels'', images = None,
               labels = None\<rparr>,
       backups = Map.empty\<rparr>)"
proof -
  let ?a = "\<lparr>args_apply = True, args_backup_dirname = ''_backup_before_normalize''\<rparr>"
  let ?ds = "\<lparr>data_yaml_path = ''data.yaml'',
       data_yaml = Some (Parsed (YDict [(YStr ''names'', YList [YStr ''a'', YStr ''a'', YStr ''b'']),
                                       (YStr ''nc'', YInt 3)])),
       train = \<lparr>images_dir = ''train/images'', labels_dir = ''train/labels'', images = None,
                labels = Some [\<lparr>lbl_path = ''x.txt'', lbl_stem = ''x'',
                                lbl_content = Inr ''2 0.5'', lbl_writable = True\<rparr>]\<rparr>,
       valid = \<lparr>images_dir = ''valid/images'', labels_dir = ''valid/labels'', images = None,
                labels = None\<rparr>,
       test = \<lparr>images_dir = ''test/images'', labels_dir = ''test/labels'', images = None,
               labels = None\<rparr>,
       backups = Map.empty\<rparr>"
  have a: "args_apply ?a" by simp
  have e: "exit_status (fst (main ?a ?ds)) = 0" by code_simp
  have c: "map lbl_content (iter_label_files (labels (train (snd (main ?a ?ds)))))
       = [Inr ''1 0.5\<newline>'']" by code_simp
  from e obtain r where "fst (main ?a ?ds) = Completed r"
    by (cases "fst (main ?a ?ds)") simp_all
  then have m: "main ?a ?ds = (Completed r, snd (main ?a ?ds))"
    by (metis prod.collapse)
  from second_run_changes_no_file [OF a m]
  obtain r2 where "main ?a (snd (main ?a ?ds)) = (Completed r2, snd (main ?a ?ds))"
    by blast
  then have "exit_status (fst (main ?a (snd (main ?a ?ds)))) = 0"
    and "snd (main ?a (snd (main ?a ?ds))) = snd (main ?a ?ds)"
    by simp_all
  with a e c show ?thesis by blast
qed

text \<open>
  With the table of the first run itself, the statement of claim C1 fails: for the
  names \<open>a, a, b\<close> the table sends 2 to 1 and 1 to 0, so a line with class id 2 is
  rewritten to 1 by the first pass and to 0 by a second pass with the same table.
\<close>

theorem same_table_twice_counterexample:
  "snd (build_names_and_remap [''a'', ''a'', ''b'']) 2 = Some 1
   \<and> snd (build_names_and_remap [''a'', ''a'', ''b'']) 1 = Some 0
   \<and> fst (process_label_file (snd (build_names_and_remap [''a'', ''a'', ''b''])) True
            \<lparr>lbl_path = ''x.txt'', lbl_stem = ''x'', lbl_content = Inr ''2 0.5'',
               lbl_writable = True\<rparr> (0, 0, []))
       = Some ''1 0.5\<newline>''
   \<and> fst (process_label_file (snd (build_names_and_remap [''a'', ''a'', ''b''])) True
            \<lparr>lbl_path = ''x.txt'', lbl_stem = ''x'', lbl_content = Inr ''1 0.5\<newline>'',
               lbl_writable = True\<rparr> (0, 0, []))
       = Some ''0 0.5\<newline>''"
  by code_simp

section \<open>Orphaned images and labels\<close>

text \<open>
  Claim C9. For finite sets of stems \<open>I\<close> and \<open>L\<close>, the orphan check is symmetric: with
  the two sets exchanged, the stems reported as missing labels are those that were
  reported as missing images and conversely. Each list is sorted by stem, without
  repetition, and holds exactly the stems of the set difference; the two counts are
  exchanged as well.
\<close>

theorem scan_split_symmetric:
  assumes "finite I" and "finite L"
  shows "scan_split idir ldir I L =
      (map (missing_label_issue idir) (sorted_list_of_set (I - L))
         @ map (missing_image_issue ldir) (sorted_list_of_set (L - I)),
       card (L - I), card (I - L))
    \<and> scan_split idir ldir L I =
      (map (missing_label_issue idir) (sorted_list_of_set (L - I))
         @ map (missing_image_issue ldir) (sorted_list_of_set (I - L)),
       card (I - L), card (L - I))
    \<and> sorted (sorted_list_of_set (I - L)) \<and> distinct (sorted_list_of_set (I - L))
    \<and> set (sorted_list_of_set (I - L)) = I - L
    \<and> sorted (sorted_list_of_set (L - I)) \<and> distinct (sorted_list_of_set (L - I))
    \<and> set (sorted_list_of_set (L - I)) = L - I"
proof -
  have f: "finite (I - L)" "finite (L - I)" using assms by simp_all
  then show ?thesis by (simp add: scan_split_def Let_def)
qed

lemma scan_split_example:
  "sorted_list_of_set ({''foo'', ''bar'', ''abc''} - {''bar'', ''zed''}) = [''abc'', ''foo'']"
  "sorted_list_of_set ({''bar'', ''zed''} - {''foo'', ''bar'', ''abc''}) = [''zed'']"
  by code_simp+

theorem scan_split_symmetric_witness:
  "finite {''foo'', ''bar'', ''abc''} \<and> finite {''bar'', ''zed''}
   \<and> scan_split ''img'' ''lbl'' {''foo'', ''bar'', ''abc''} {''bar'', ''zed''} =
       ([''Missing label for image: img/**/abc.jpg'', ''Missing label for image: img/**/foo.jpg'',
         ''Missing image for label: lbl/**/zed.txt''], 1, 2)
   \<and> scan_split ''img'' ''lbl'' {''bar'', ''zed''} {''foo'', ''bar'', ''abc''} =
       ([''Missing label for image: img/**/zed.jpg'',
         ''Missing image for label: lbl/**/abc.txt'', ''Missing image for label: lbl/**/foo.txt''], 2, 1)"
proof -
  have a: "finite {''foo'', ''bar'', ''abc''}" and b: "finite {''bar'', ''zed''}" by simp_all
  note t = scan_split_symmetric [OF a b, of "''img''" "''lbl''"]
  have c: "card ({''foo'', ''bar'', ''abc''} - {''bar'', ''zed''}) = 2"
    "card ({''bar'', ''zed''} - {''foo'', ''bar'', ''abc''}) = 1"
    using t by (simp_all add: scan_split_example flip: distinct_card)
  from t a b show ?thesis
    by (simp add: scan_split_example c missing_label_issue_def missing_image_issue_def)
qed

section \<open>Exit status of main\<close>

text \<open>
  In the model \<open>main\<close> ends with exit status 1, and leaves the dataset as it was, when
  the manifest is missing or cannot be loaded, is not a mapping, has a \<open>names\<close> entry
  that \<open>list\<close> rejects or that is empty, or has a name that is not a string. A dry run
  ends with exit status 1 in these cases only.
\<close>

lemma main_invalid_manifest:
  assumes "case data_yaml ds of
        None \<Rightarrow> True
      | Some Unparsable \<Rightarrow> True
      | Some (Parsed cfg) \<Rightarrow>
          (case cfg_get_names cfg of
             Inl exc \<Rightarrow> True
           | Inr v \<Rightarrow>
               (case py_list v of
                  Inl exc \<Rightarrow> True
                | Inr ys \<Rightarrow> ys = [] \<or> (\<exists>exc. as_strings ys = Inl exc)))"
  shows "exit_status (fst (main a ds)) = 1 \<and> snd (main a ds) = ds"
  using assms
  by (auto simp: main_def split: option.splits yaml_file.splits sum.splits)

lemma main_dry_run_exit_status:
  "exit_status (fst (main (a\<lparr>args_apply := False\<rparr>) ds)) = 1 \<longleftrightarrow>
     (case data_yaml ds of
        None \<Rightarrow> True
      | Some Unparsable \<Rightarrow> True
      | Some (Parsed cfg) \<Rightarrow>
          (case cfg_get_names cfg of
             Inl exc \<Rightarrow> True
           | Inr v \<Rightarrow>
               (case py_list v of
                  Inl exc \<Rightarrow> True
                | Inr ys \<Rightarrow> ys = [] \<or> (\<exists>exc. as_strings ys = Inl exc))))"
proof -
  have "exit_status (fst (run_splits (a\<lparr>args_apply := False\<rparr>) cfg names ds)) = 0" for cfg names
    using run_splits_dry_run [of a cfg names ds] by auto
  then show ?thesis
    by (auto simp: main_def split: option.splits yaml_file.splits sum.splits)
qed


text \<open>
  Claim C4, at an input where the code departs from it. The manifest gives \<open>names\<close> as
  the string \<open>roof\<close>, which is not a list of class names. \<open>main\<close> turns it into the
  list of its characters, so the test for a list that follows never fails: the run
  ends with exit status 0, and in apply mode it rewrites the manifest with the three
  classes \<open>r\<close>, \<open>o\<close>, \<open>f\<close>.
\<close>

theorem names_given_as_string_exit_status:
  "exit_status (fst (main \<lparr>args_apply = False, args_backup_dirname = ''_backup_before_normalize''\<rparr>
      \<lparr>data_yaml_path = ''data.yaml'',
       data_yaml = Some (Parsed (YDict [(YStr ''names'', YStr ''roof''), (YStr ''nc'', YInt 1)])),
       train = \<lparr>images_dir = ''train/images'', labels_dir = ''train/labels'', images = None, labels = None\<rparr>,
       valid = \<lparr>images_dir = ''valid/images'', labels_dir = ''valid/labels'', images = None, labels = None\<rparr>,
       test = \<lparr>images_dir = ''test/images'', labels_dir = ''test/labels'', images = None, labels = None\<rparr>,
       backups = Map.empty\<rparr>)) = 0
   \<and> data_yaml (snd (main \<lparr>args_apply = True, args_backup_dirname = ''_backup_before_normalize''\<rparr>
      \<lparr>data_yaml_path = ''data.yaml'',
       data_yaml = Some (Parsed (YDict [(YStr ''names'', YStr ''roof''), (YStr ''nc'', YInt 1)])),
       train = \<lparr>images_dir = ''train/images'', labels_dir = ''train/labels'', images = None, labels = None\<rparr>,
       valid = \<lparr>images_dir = ''valid/images'', labels_dir = ''valid/labels'', images = None, labels = None\<rparr>,
       test = \<lparr>images_dir = ''test/images'', labels_dir = ''test/labels'', images = None, labels = None\<rparr>,
       backups = Map.empty\<rparr>))
     = Some (Parsed (YDict [(YStr ''names'', YList [YStr ''r'', YStr ''o'', YStr ''f'']),
                            (YStr ''nc'', YInt 3)]))"
  by code_simp

end
